theory Spec2Isabelle
  imports Complex_Main "HOL-Library.AList" "HOL-Library.Multiset"
begin

section \<open>Values, stored fields and queries\<close>

text \<open>
  A place record is a Python dict from field names to values. Dicts are association
  lists in insertion order: \<open>map_of\<close> is \<open>d[k]\<close> / \<open>d.get(k)\<close>, \<open>AList.update\<close> is
  \<open>d[k] = v\<close> and \<open>AList.delete\<close> is \<open>d.pop(k, None)\<close>. The number type \<open>'n\<close> stands for
  Python's float: the search functions only use its \<open>+\<close>, \<open>-\<close> and \<open>\<le>\<close>, whatever they are.
\<close>

datatype 'n val =
    Str string
  | Num 'n
  | PyInt int
  | Date nat nat nat
  | PyNone
  | Dict "(string \<times> 'n val) list"

type_synonym 'n fields = "(string \<times> 'n val) list"

datatype pyerror =
    ValueError
  | KeyError
  | AttributeError
  | TypeError
  | IndexError
  | FileNotFoundError
  | AssertionError
  | EmptyIndexError
  | OSError

text \<open>
  The query objects the program builds. \<open>MultifieldParser fs tc s\<close> is the query that
  \<open>wp.MultifieldParser(fs, schema, termclass=tc).parse(s)\<close> returns; the library parses
  the text and the program never looks inside.
\<close>

datatype termclass = Term_class | FuzzyTerm | FuzzyTerm2

datatype 'n query =
    Term string string
  | NumericRange string 'n 'n
  | And "'n query list"
  | MultifieldParser "string list" termclass string

text \<open>
  A hit carries its score and its stored fields. A results object has the scored hits
  (what iterating it, indexing it and its truth value read) and the number of matching
  documents (what \<open>len\<close> reads).
\<close>

record 'n hit =
  hscore :: 'n
  hfields :: "'n fields"

record 'n results =
  top_n :: "'n hit list"
  total :: nat

text \<open>\<open>searcher.search(q, limit=l)\<close>: the index, as the program sees it.\<close>

type_synonym 'n searcher = "'n query \<Rightarrow> int \<Rightarrow> pyerror + 'n results"

record 'n entry =
  score :: 'n
  place :: "'n fields"

section \<open>The feature code table\<close>

text \<open>
  \<open>placecodes.json\<close>: feature class to \<open>{descr, codes}\<close>, \<open>codes\<close> from feature code to a
  dict that may hold \<open>short\<close> and \<open>full\<close>.
\<close>

record class_entry =
  descr :: "string option"
  codes :: "(string \<times> (string \<times> string) list) list"

type_synonym table = "(string \<times> class_entry) list"

text \<open>
  The state that a query reads and writes: the instance's \<open>place_codes\<close> attribute, the
  file \<open>placecodes.json\<close> on disk (\<open>None\<close> when there is no such file), the number of
  times the file has been read, and the queries sent to the index so far.
\<close>

record 'n world =
  place_codes :: "table option"
  codes_file :: "table option"
  file_reads :: nat
  searched :: "'n query list"

section \<open>Strings\<close>

text \<open>\<open>str.lower()\<close> on ASCII text.\<close>

definition lower_char :: "char \<Rightarrow> char" where
  "lower_char c =
     (let n = (of_char c :: nat)
      in if 65 \<le> n \<and> n \<le> 90 then char_of (n + 32) else c)"

definition lower :: "string \<Rightarrow> string" where
  "lower s = map lower_char s"

section \<open>Result enricher\<close>

text \<open>
  \<open>if not self.place_codes:\<close> holds for \<open>None\<close> and for the empty dict; then the file is
  opened and parsed, and \<open>open\<close> raises when the file is missing.
\<close>

definition load_codes :: "'n world \<Rightarrow> (pyerror + table) \<times> 'n world" where
  "load_codes w =
     (if place_codes w = None \<or> place_codes w = Some [] then
        (case codes_file w of
           None \<Rightarrow> (Inl FileNotFoundError, w)
         | Some t \<Rightarrow> (Inr t, w\<lparr>place_codes := Some t, file_reads := Suc (file_reads w)\<rparr>))
      else
        (case place_codes w of
           None \<Rightarrow> (Inl FileNotFoundError, w)
         | Some t \<Rightarrow> (Inr t, w)))"

text \<open>\<open>d.get(k, default)\<close> for a key that is a field value; a dict is not hashable.\<close>

definition get_by :: "(string \<times> 'a) list \<Rightarrow> 'n val \<Rightarrow> 'a \<Rightarrow> pyerror + 'a" where
  "get_by d k dflt =
     (case k of
        Str s \<Rightarrow> (case map_of d s of None \<Rightarrow> Inr dflt | Some v \<Rightarrow> Inr v)
      | Dict _ \<Rightarrow> Inl TypeError
      | _ \<Rightarrow> Inr dflt)"

definition get_or :: "(string \<times> 'a) list \<Rightarrow> string \<Rightarrow> 'a \<Rightarrow> 'a" where
  "get_or d k dflt = (case map_of d k of None \<Rightarrow> dflt | Some v \<Rightarrow> v)"

definition describe :: "table \<Rightarrow> 'n fields \<Rightarrow> pyerror + 'n fields" where
  "describe tbl atb =
     (let classid = get_or atb ''feature_class'' (Str '''');
          codeid = get_or atb ''feature_code'' (Str '''')
      in case get_by tbl classid \<lparr>descr = None, codes = []\<rparr> of
           Inl e \<Rightarrow> Inl e
         | Inr fclass \<Rightarrow>
             (let fclass_descr = descr fclass
              in case get_by (codes fclass) codeid [] of
                   Inl e \<Rightarrow> Inl e
                 | Inr fcode \<Rightarrow>
                     (let fcode_short = get_or fcode ''short'' '''';
                          fcode_full = get_or fcode ''full'' ''''
                      in Inr (AList.update ''feature_code_full'' (Str fcode_full)
                               (AList.update ''feature_code_short'' (Str fcode_short)
                                 (AList.update ''feature_class_descr''
                                    (case fclass_descr of None \<Rightarrow> PyNone | Some s \<Rightarrow> Str s)
                                    atb))))))"

definition add_description :: "'n fields \<Rightarrow> 'n world \<Rightarrow> (pyerror + 'n fields) \<times> 'n world" where
  "add_description atb w =
     (case load_codes w of
        (Inl e, w') \<Rightarrow> (Inl e, w')
      | (Inr tbl, w') \<Rightarrow> (describe tbl atb, w'))"

section \<open>Hierarchy resolver\<close>

definition fnum :: "string list" where
  "fnum = [''1'', ''2'', ''3'', ''4'']"

definition excludeatb :: "string list" where
  "excludeatb =
     map (\<lambda>k. ''admin'' @ k @ ''_code'') fnum
       @ [''feature_code'', ''feature_class'', ''country_code'', ''cc2'']"

text \<open>\<open>for key in excludeatb: other.pop(key, None)\<close>\<close>

definition strip :: "'n fields \<Rightarrow> 'n fields" where
  "strip other = fold AList.delete excludeatb other"

text \<open>\<open>atb[k].lower()\<close>: a missing key and a value that is no string both raise.\<close>

definition lower_field :: "'n fields \<Rightarrow> string \<Rightarrow> pyerror + string" where
  "lower_field atb k =
     (case map_of atb k of
        None \<Rightarrow> Inl KeyError
      | Some (Str s) \<Rightarrow> Inr (lower s)
      | Some _ \<Rightarrow> Inl AttributeError)"

text \<open>
  The loop over \<open>fnum\<close>. \<open>searcher.search(query)\<close> runs with the library's default limit
  of 10; \<open>results[0]\<close> raises when there is no scored hit.
\<close>

fun hierarchy_loop ::
  "'n searcher \<Rightarrow> string list \<Rightarrow> 'n query list \<Rightarrow> 'n fields \<Rightarrow> 'n world
     \<Rightarrow> (pyerror + 'n fields) \<times> 'n world" where
  "hierarchy_loop srch [] conditions atb w = (Inr atb, w)"
| "hierarchy_loop srch (l # ls) conditions atb w =
     (let admincode = ''admin'' @ l @ ''_code''
      in case lower_field atb admincode of
           Inl e \<Rightarrow> (Inl e, w)
         | Inr adminvalue \<Rightarrow>
             if adminvalue = [] then (Inr atb, w)
             else
               (let conditions' = conditions @ [Term admincode adminvalue];
                    query = And (conditions' @ [Term ''feature_code'' (''adm'' @ l)]);
                    w' = w\<lparr>searched := searched w @ [query]\<rparr>
                in case srch query 10 of
                     Inl e \<Rightarrow> (Inl e, w')
                   | Inr results \<Rightarrow>
                       if total results = 1 then
                         (case top_n results of
                            [] \<Rightarrow> (Inl IndexError, w')
                          | h # _ \<Rightarrow>
                              hierarchy_loop srch ls conditions'
                                (AList.update (''admin'' @ l) (Dict (strip (hfields h))) atb) w')
                       else (Inr atb, w')))"

definition add_hierarchy ::
  "'n searcher \<Rightarrow> 'n fields \<Rightarrow> 'n world \<Rightarrow> (pyerror + 'n fields) \<times> 'n world" where
  "add_hierarchy srch atb w =
     (case lower_field atb ''country_code'' of
        Inl e \<Rightarrow> (Inl e, w)
      | Inr country_code \<Rightarrow>
          hierarchy_loop srch fnum [Term ''country_code'' country_code] atb w)"

section \<open>Building the response\<close>

fun response_loop ::
  "'n searcher \<Rightarrow> bool \<Rightarrow> bool \<Rightarrow> 'n hit list \<Rightarrow> 'n entry list \<Rightarrow> 'n world
     \<Rightarrow> (pyerror + 'n entry list) \<times> 'n world" where
  "response_loop srch hierarchy expand_codes [] found w = (Inr found, w)"
| "response_loop srch hierarchy expand_codes (res # rest) found w =
     (case (if expand_codes then add_description (hfields res) w
            else (Inr (hfields res), w)) of
        (Inl e, w1) \<Rightarrow> (Inl e, w1)
      | (Inr atb1, w1) \<Rightarrow>
          (case (if hierarchy then add_hierarchy srch atb1 w1 else (Inr atb1, w1)) of
             (Inl e, w2) \<Rightarrow> (Inl e, w2)
           | (Inr atb2, w2) \<Rightarrow>
               response_loop srch hierarchy expand_codes rest
                 (found @ [\<lparr>score = hscore res, place = atb2\<rparr>]) w2))"

text \<open>A results object is true when it has a scored hit.\<close>

definition response ::
  "'n results \<Rightarrow> 'n searcher \<Rightarrow> bool \<Rightarrow> bool \<Rightarrow> 'n world
     \<Rightarrow> (pyerror + 'n entry list) \<times> 'n world" where
  "response result srch hierarchy expand_codes w =
     (if top_n result \<noteq> [] then
        response_loop srch hierarchy expand_codes (top_n result) [] w
      else (Inr [], w))"

section \<open>Search by place name\<close>

datatype level = Exact | Single | Double

definition name_fields :: "string list" where
  "name_fields = [''name'', ''asciiname'', ''alternatenames'']"

fun level_query :: "level \<Rightarrow> string \<Rightarrow> 'n query" where
  "level_query Exact querystr = MultifieldParser name_fields Term_class querystr"
| "level_query Single querystr = MultifieldParser name_fields FuzzyTerm querystr"
| "level_query Double querystr = MultifieldParser name_fields FuzzyTerm2 querystr"

text \<open>
  \<open>maxdist\<close> is any Python number; a rational stands for an int or a finite float, which
  Python compares by value.
\<close>

definition levels :: "rat \<Rightarrow> level list" where
  "levels maxdist =
     [Exact] @ (if maxdist \<noteq> 0 then [Single] else [])
             @ (if maxdist = 2 then [Double] else [])"

fun find_loop ::
  "'n searcher \<Rightarrow> string \<Rightarrow> int \<Rightarrow> bool \<Rightarrow> bool \<Rightarrow> level list \<Rightarrow> 'n entry list \<Rightarrow> 'n world
     \<Rightarrow> (pyerror + 'n entry list) \<times> 'n world" where
  "find_loop srch querystr limit hierarchy expand_codes [] found w = (Inr found, w)"
| "find_loop srch querystr limit hierarchy expand_codes (level # rest) found w =
     (let q = level_query level querystr;
          w1 = w\<lparr>searched := searched w @ [q]\<rparr>
      in case srch q limit of
           Inl e \<Rightarrow> (Inl e, w1)
         | Inr res \<Rightarrow>
             (case response res srch hierarchy expand_codes w1 of
                (Inl e, w2) \<Rightarrow> (Inl e, w2)
              | (Inr found', w2) \<Rightarrow>
                  if found' \<noteq> [] then (Inr found', w2)
                  else find_loop srch querystr limit hierarchy expand_codes rest found' w2))"

definition find_place ::
  "'n searcher \<Rightarrow> string \<Rightarrow> int \<Rightarrow> rat \<Rightarrow> bool \<Rightarrow> bool \<Rightarrow> 'n world
     \<Rightarrow> (pyerror + 'n entry list) \<times> 'n world" where
  "find_place srch querystr limit maxdist hierarchy expand_codes w =
     (if maxdist > 2 then (Inl ValueError, w)
      else find_loop srch querystr limit hierarchy expand_codes (levels maxdist) [] w)"

section \<open>Search by coordinates\<close>

definition findpos ::
  "('n::{plus,minus}) searcher \<Rightarrow> 'n \<Rightarrow> 'n \<Rightarrow> int \<Rightarrow> 'n \<Rightarrow> bool \<Rightarrow> bool \<Rightarrow> 'n world
     \<Rightarrow> (pyerror + 'n entry list) \<times> 'n world" where
  "findpos srch lat lon limit range' hierarchy expand_codes w =
     (let q = And [NumericRange ''latitude'' (lat - range') (lat + range'),
                   NumericRange ''longitude'' (lon - range') (lon + range')];
          w1 = w\<lparr>searched := searched w @ [q]\<rparr>
      in case srch q limit of
           Inl e \<Rightarrow> (Inl e, w1)
         | Inr res \<Rightarrow> response res srch hierarchy expand_codes w1)"

text \<open>\<open>findpos(lat, lon)\<close> with every default: limit 10, range 0.001, both flags on.\<close>

definition findpos_default ::
  "rat searcher \<Rightarrow> rat \<Rightarrow> rat \<Rightarrow> rat world \<Rightarrow> (pyerror + rat entry list) \<times> rat world" where
  "findpos_default srch lat lon w = findpos srch lat lon 10 (1 / 1000) True True w"

section \<open>The index behind the searcher\<close>

text \<open>
  What the search library does with the queries above, as its documentation has it: a
  numeric range includes both ends, \<open>And\<close> is the conjunction, a search with a limit
  below 1 is refused, the scored hits are the first \<open>limit\<close> matches and \<open>len\<close> counts
  every match. How a term or a parsed text matches a document (analysis, fuzzy terms)
  and how a match is scored stay parameters: \<open>tm\<close>, \<open>pm\<close> and \<open>sc\<close>.
\<close>

definition in_range :: "('n::ord) fields \<Rightarrow> string \<Rightarrow> 'n \<Rightarrow> 'n \<Rightarrow> bool" where
  "in_range d f lo hi =
     (case map_of d f of Some (Num x) \<Rightarrow> lo \<le> x \<and> x \<le> hi | _ \<Rightarrow> False)"

fun matches ::
  "(string \<Rightarrow> string \<Rightarrow> 'n fields \<Rightarrow> bool) \<Rightarrow> (string list \<Rightarrow> termclass \<Rightarrow> string \<Rightarrow> 'n fields \<Rightarrow> bool)
     \<Rightarrow> ('n::ord) query \<Rightarrow> 'n fields \<Rightarrow> bool" where
  "matches tm pm (Term f t) d = tm f t d"
| "matches tm pm (NumericRange f lo hi) d = in_range d f lo hi"
| "matches tm pm (And qs) d = (\<forall>q \<in> set qs. matches tm pm q d)"
| "matches tm pm (MultifieldParser fs tc s) d = pm fs tc s d"

definition index_search ::
  "(string \<Rightarrow> string \<Rightarrow> 'n fields \<Rightarrow> bool) \<Rightarrow> (string list \<Rightarrow> termclass \<Rightarrow> string \<Rightarrow> 'n fields \<Rightarrow> bool)
     \<Rightarrow> ('n query \<Rightarrow> 'n fields \<Rightarrow> 'n) \<Rightarrow> ('n::ord) fields list \<Rightarrow> 'n searcher" where
  "index_search tm pm sc docs q limit =
     (if limit < 1 then Inl ValueError
      else
        (let ms = filter (matches tm pm q) docs
         in Inr \<lparr>top_n = map (\<lambda>d. \<lparr>hscore = sc q d, hfields = d\<rparr>) (take (nat limit) ms),
                 total = length ms\<rparr>))"

section \<open>Bulk indexer\<close>

text \<open>
  The index directory: missing, present without an index, or holding the committed
  documents. \<open>ops\<close> is the sequence of writer calls made so far.
\<close>

datatype 'n store = NoDir | NoIndex | Index "'n fields list"

datatype 'n wop =
    AddDocument "'n fields"
  | UpdateDocument "'n fields"
  | Commit bool

record 'n disk =
  store :: "'n store"
  ops :: "'n wop list"

text \<open>
  A writer holds the committed documents it will keep and the documents it has been given.
  The library stores no field whose value is \<open>None\<close>. \<open>update_document\<close> deletes the
  committed documents that have the new document's value in the unique field
  (\<open>geonameid\<close>) and then adds; documents given to the same writer and not yet committed
  are not replaced.
\<close>

record 'n writer =
  kept :: "'n fields list"
  added :: "'n fields list"

definition stored_fields :: "'n fields \<Rightarrow> 'n fields" where
  "stored_fields sample = filter (\<lambda>(k, v). v \<noteq> PyNone) sample"

definition add_document :: "'n fields \<Rightarrow> 'n writer \<Rightarrow> 'n writer" where
  "add_document sample wr = wr\<lparr>added := added wr @ [stored_fields sample]\<rparr>"

definition update_document :: "'n fields \<Rightarrow> 'n writer \<Rightarrow> 'n writer" where
  "update_document sample wr =
     add_document sample
       (wr\<lparr>kept := filter (\<lambda>d. map_of d ''geonameid'' \<noteq> map_of sample ''geonameid'') (kept wr)\<rparr>)"

definition committed :: "'n store \<Rightarrow> 'n fields list" where
  "committed st = (case st of Index ds \<Rightarrow> ds | _ \<Rightarrow> [])"

text \<open>\<open>whooidx.writer()\<close>\<close>

definition writer :: "'n disk \<Rightarrow> 'n writer" where
  "writer dk = \<lparr>kept = committed (store dk), added = []\<rparr>"

text \<open>
  \<open>whoowriter.commit(optimize=o)\<close>. The index holds the kept and the added documents.
  An optimizing commit writes one segment, the writer's own, into which the old segments
  are read after the documents already added; otherwise the writer's segment comes after
  the old ones. (The library may also merge small old segments into the writer's segment
  without being asked; that changes the order only and is not modelled.) Statements
  about the documents of an index after more than one commit are made up to order.
\<close>

definition commit :: "bool \<Rightarrow> 'n writer \<Rightarrow> 'n disk \<Rightarrow> 'n disk" where
  "commit optimize wr dk =
     dk\<lparr>store := Index (if optimize then added wr @ kept wr else kept wr @ added wr),
        ops := ops dk @ [Commit optimize]\<rparr>"

text \<open>
  Python's \<open>float\<close>, \<open>int\<close> and \<open>datetime.strptime(_, '%Y-%m-%d')\<close>; \<open>None\<close> is the
  \<open>ValueError\<close> they raise.
\<close>

record 'n builtins =
  pyfloat :: "string \<Rightarrow> 'n option"
  pyint :: "string \<Rightarrow> int option"
  strptime :: "string \<Rightarrow> (nat \<times> nat \<times> nat) option"

text \<open>\<open>line.split(sep)\<close>\<close>

fun split :: "char \<Rightarrow> string \<Rightarrow> string list" where
  "split sep [] = [[]]"
| "split sep (c # cs) =
     (if c = sep then [] # split sep cs
      else (case split sep cs of [] \<Rightarrow> [[c]] | x # xs \<Rightarrow> (c # x) # xs))"

definition tab :: char where
  "tab = CHR 0x09"

definition atbnames :: "string list" where
  "atbnames =
     [''geonameid'', ''name'', ''asciiname'', ''alternatenames'', ''latitude'', ''longitude'',
      ''feature_class'', ''feature_code'', ''country_code'', ''cc2'', ''admin1_code'',
      ''admin2_code'', ''admin3_code'', ''admin4_code'', ''population'', ''elevation'', ''dem'',
      ''timezone'', ''modification_date'']"

text \<open>\<open>sample[k] = float(sample[k])\<close>\<close>

definition to_float :: "'n builtins \<Rightarrow> string \<Rightarrow> 'n fields \<Rightarrow> pyerror + 'n fields" where
  "to_float b k sample =
     (case map_of sample k of
        Some (Str s) \<Rightarrow>
          (case pyfloat b s of
             None \<Rightarrow> Inl ValueError
           | Some x \<Rightarrow> Inr (AList.update k (Num x) sample))
      | _ \<Rightarrow> Inl KeyError)"

text \<open>\<open>sample[k] = int(sample[k]) if sample[k] else None\<close>\<close>

definition to_int :: "'n builtins \<Rightarrow> string \<Rightarrow> 'n fields \<Rightarrow> pyerror + 'n fields" where
  "to_int b k sample =
     (case map_of sample k of
        Some (Str s) \<Rightarrow>
          (if s = [] then Inr (AList.update k PyNone sample)
           else
             (case pyint b s of
                None \<Rightarrow> Inl ValueError
              | Some i \<Rightarrow> Inr (AList.update k (PyInt i) sample)))
      | _ \<Rightarrow> Inl KeyError)"

definition to_date :: "'n builtins \<Rightarrow> string \<Rightarrow> 'n fields \<Rightarrow> pyerror + 'n fields" where
  "to_date b k sample =
     (case map_of sample k of
        Some (Str s) \<Rightarrow>
          (if s = [] then Inr (AList.update k PyNone sample)
           else
             (case strptime b (take 10 s) of
                None \<Rightarrow> Inl ValueError
              | Some (y, m, d) \<Rightarrow> Inr (AList.update k (Date y m d) sample)))
      | _ \<Rightarrow> Inl KeyError)"

definition bind :: "pyerror + 'a \<Rightarrow> ('a \<Rightarrow> pyerror + 'b) \<Rightarrow> pyerror + 'b" where
  "bind r f = (case r of Inl e \<Rightarrow> Inl e | Inr x \<Rightarrow> f x)"

text \<open>One line of the file, up to the sample that is written to the index.\<close>

definition parse_sample :: "'n builtins \<Rightarrow> string \<Rightarrow> pyerror + 'n fields" where
  "parse_sample b line =
     (let attb = split tab line
      in if length attb \<noteq> length atbnames then Inl AssertionError
         else
           bind (to_float b ''latitude'' (zip atbnames (map Str attb))) (\<lambda>s1.
           bind (to_float b ''longitude'' s1) (\<lambda>s2.
           bind (to_int b ''population'' s2) (\<lambda>s3.
           bind (to_int b ''elevation'' s3) (\<lambda>s4.
           bind (to_int b ''dem'' s4) (\<lambda>s5.
           to_date b ''modification_date'' s5))))))"

text \<open>
  The loop over the lines of the file, \<open>iline\<close> counting from 0. An exception leaves the
  index as the last commit left it.
\<close>

fun indexfile_loop ::
  "'n builtins \<Rightarrow> bool \<Rightarrow> string list \<Rightarrow> nat \<Rightarrow> 'n writer \<Rightarrow> 'n disk
     \<Rightarrow> (pyerror + 'n writer) \<times> 'n disk" where
  "indexfile_loop b append' [] iline wr dk = (Inr wr, dk)"
| "indexfile_loop b append' (line # rest) iline wr dk =
     (case parse_sample b line of
        Inl e \<Rightarrow> (Inl e, dk)
      | Inr sample \<Rightarrow>
          (let wr1 = (if append' then add_document sample wr else update_document sample wr);
               dk1 = dk\<lparr>ops := ops dk @
                        [if append' then AddDocument sample else UpdateDocument sample]\<rparr>
           in if iline mod 1000000 = 999999 then
                (let dk2 = commit (\<not> append') wr1 dk1
                 in indexfile_loop b append' rest (Suc iline) (writer dk2) dk2)
              else indexfile_loop b append' rest (Suc iline) wr1 dk1))"

text \<open>
  \<open>_indexfile\<close>; \<open>filein\<close> is the lines of the file, or \<open>None\<close> when it cannot be opened.
\<close>

definition indexfile ::
  "'n builtins \<Rightarrow> string list option \<Rightarrow> bool \<Rightarrow> bool \<Rightarrow> 'n disk \<Rightarrow> (pyerror + unit) \<times> 'n disk" where
  "indexfile b filein overwrite append' dk =
     (if \<not> (overwrite \<or> store dk = NoDir) \<and> store dk = NoIndex then (Inl EmptyIndexError, dk)
      else
        (let dk1 = (if overwrite \<or> store dk = NoDir then dk\<lparr>store := Index []\<rparr> else dk)
         in case filein of
              None \<Rightarrow> (Inl OSError, dk1)
            | Some lines \<Rightarrow>
                (case indexfile_loop b append' lines 0 (writer dk1) dk1 of
                   (Inl e, dk2) \<Rightarrow> (Inl e, dk2)
                 | (Inr wr, dk2) \<Rightarrow> (Inr (), commit (\<not> append') wr dk2))))"

text \<open>
  The indexing part of \<open>download\<close>: \<open>files\<close> are the unpacked members of the archive in
  order. Fetching and unpacking the archive and the code page are not modelled. Nor is the
  write lock: a file that fails part-way leaves its writer neither committed nor cancelled,
  and the lock it still holds makes the library refuse a writer to the files after it,
  which are then skipped; here they are indexed. The statements below on what the index
  holds are about builds in which no file fails.
\<close>

fun download_loop ::
  "'n builtins \<Rightarrow> string list option list \<Rightarrow> bool \<Rightarrow> bool \<Rightarrow> 'n disk \<Rightarrow> 'n disk" where
  "download_loop b [] overwrite append' dk = dk"
| "download_loop b (filein # rest) overwrite append' dk =
     (case indexfile b filein overwrite append' dk of
        (Inl e, dk') \<Rightarrow> download_loop b rest overwrite append' dk'
      | (Inr u, dk') \<Rightarrow> download_loop b rest False append' dk')"

definition download :: "'n builtins \<Rightarrow> string list option list \<Rightarrow> bool \<Rightarrow> 'n disk \<Rightarrow> 'n disk" where
  "download b files overwrite dk =
     (let append' = overwrite in download_loop b files overwrite append' dk)"

section \<open>Observations on a run\<close>

text \<open>The queries of the three tiers, as against the queries of the hierarchy resolver.\<close>

fun is_tier :: "'n query \<Rightarrow> bool" where
  "is_tier (MultifieldParser fs tc s) = True"
| "is_tier (Term f t) = False"
| "is_tier (NumericRange f lo hi) = False"
| "is_tier (And qs) = False"

text \<open>A search that ran and gave no scored hit.\<close>

definition no_result :: "'n searcher \<Rightarrow> 'n query \<Rightarrow> int \<Rightarrow> bool" where
  "no_result srch q limit =
     (case srch q limit of Inl e \<Rightarrow> False | Inr res \<Rightarrow> top_n res = [])"

text \<open>The log has grown, and by no tier query.\<close>

definition appended :: "'n world \<Rightarrow> 'n world \<Rightarrow> bool" where
  "appended w w' = (\<exists>new. searched w' = searched w @ new \<and> filter is_tier new = [])"

text \<open>
  The tier queries of a run over the levels \<open>lvls\<close>: each level is searched, and the next
  one only after a search without result.
\<close>

fun consulted :: "'n searcher \<Rightarrow> string \<Rightarrow> int \<Rightarrow> level list \<Rightarrow> 'n query list" where
  "consulted srch qs limit [] = []"
| "consulted srch qs limit (l # ls) =
     level_query l qs #
       (if no_result srch (level_query l qs) limit then consulted srch qs limit ls else [])"

text \<open>
  What a build in a given mode writes: \<open>written_as ap\<close> holds of the writer calls that
  \<open>_indexfile\<close> makes when its \<open>append\<close> argument is \<open>ap\<close>.
\<close>

fun written_as :: "bool \<Rightarrow> 'n wop \<Rightarrow> bool" where
  "written_as ap (AddDocument s) = ap"
| "written_as ap (UpdateDocument s) = (\<not> ap)"
| "written_as ap (Commit optimize) = (optimize = (\<not> ap))"

text \<open>
  A line that parses, the document it leaves in the index, its id; a file that can be read
  and whose lines all parse.
\<close>

definition sample_of :: "'n builtins \<Rightarrow> string \<Rightarrow> 'n fields" where
  "sample_of b line = (case parse_sample b line of Inl e \<Rightarrow> [] | Inr sample \<Rightarrow> stored_fields sample)"

definition parses :: "'n builtins \<Rightarrow> string \<Rightarrow> bool" where
  "parses b line = (case parse_sample b line of Inl e \<Rightarrow> False | Inr sample \<Rightarrow> True)"

definition readable :: "'n builtins \<Rightarrow> string list option \<Rightarrow> bool" where
  "readable b filein = (case filein of None \<Rightarrow> False | Some lines \<Rightarrow> list_all (parses b) lines)"

definition lines_of :: "string list option \<Rightarrow> string list" where
  "lines_of filein = (case filein of None \<Rightarrow> [] | Some lines \<Rightarrow> lines)"

definition id_of :: "'n builtins \<Rightarrow> string \<Rightarrow> 'n val option" where
  "id_of b line = (case parse_sample b line of Inl e \<Rightarrow> None | Inr sample \<Rightarrow> map_of sample ''geonameid'')"

text \<open>
  The box of the spatial query: latitude within \<open>half_width\<close> of \<open>lat\<close> and longitude
  within \<open>half_width\<close> of \<open>lon\<close>, both ends included.
\<close>

definition in_box :: "('n::{plus,minus,ord}) \<Rightarrow> 'n \<Rightarrow> 'n \<Rightarrow> 'n fields \<Rightarrow> bool" where
  "in_box lat lon half_width d =
     (in_range d ''latitude'' (lat - half_width) (lat + half_width) \<and>
      in_range d ''longitude'' (lon - half_width) (lon + half_width))"

text \<open>
  The keys that the enricher and the hierarchy resolver set; a returned place extends the
  stored record when it agrees with it on every other key.
\<close>

definition attached_keys :: "string list" where
  "attached_keys =
     [''feature_class_descr'', ''feature_code_short'', ''feature_code_full'']
       @ map (\<lambda>l. ''admin'' @ l) fnum"

definition extends :: "'n fields \<Rightarrow> 'n fields \<Rightarrow> bool" where
  "extends atb' atb = (\<forall>k. k \<notin> set attached_keys \<longrightarrow> map_of atb' k = map_of atb k)"

text \<open>
  The hierarchy walk, level by level; levels are counted from 0, so \<open>n\<close> stands for admin
  level \<open>n + 1\<close>. \<open>containment_query atb n\<close> is the query of that level: the country code,
  the admin codes of the levels up to it, and the feature code of its administrative unit.
  A level has a unique match when its code is not empty and its query counts one document;
  it is resolved when it and every level before it have a unique match, and queried when
  every level before it has one and its code is not empty. \<open>summary\<close> is what is attached:
  the first scored hit of the query, stripped. \<open>coded\<close> records have the country code and
  the four admin codes as strings, as every record written by the indexer has.
\<close>

definition admincode :: "nat \<Rightarrow> string" where
  "admincode n = ''admin'' @ fnum ! n @ ''_code''"

definition adminkey :: "nat \<Rightarrow> string" where
  "adminkey n = ''admin'' @ fnum ! n"

definition lowered :: "'n fields \<Rightarrow> string \<Rightarrow> string" where
  "lowered atb k = (case map_of atb k of Some (Str s) \<Rightarrow> lower s | _ \<Rightarrow> [])"

definition containment_query :: "'n fields \<Rightarrow> nat \<Rightarrow> 'n query" where
  "containment_query atb n =
     And (Term ''country_code'' (lowered atb ''country_code'')
            # map (\<lambda>k. Term (admincode k) (lowered atb (admincode k))) [0..<Suc n]
            @ [Term ''feature_code'' (''adm'' @ fnum ! n)])"

definition unique_match :: "'n searcher \<Rightarrow> 'n fields \<Rightarrow> nat \<Rightarrow> bool" where
  "unique_match srch atb n =
     (lowered atb (admincode n) \<noteq> [] \<and>
      (case srch (containment_query atb n) 10 of Inl e \<Rightarrow> False | Inr res \<Rightarrow> total res = 1))"

definition resolved :: "'n searcher \<Rightarrow> 'n fields \<Rightarrow> nat \<Rightarrow> bool" where
  "resolved srch atb n = list_all (unique_match srch atb) [0..<Suc n]"

definition queried :: "'n searcher \<Rightarrow> 'n fields \<Rightarrow> nat \<Rightarrow> bool" where
  "queried srch atb n =
     (list_all (unique_match srch atb) [0..<n] \<and> lowered atb (admincode n) \<noteq> [])"

definition summary :: "'n searcher \<Rightarrow> 'n fields \<Rightarrow> nat \<Rightarrow> 'n val option" where
  "summary srch atb n =
     (case srch (containment_query atb n) 10 of
        Inl e \<Rightarrow> None
      | Inr res \<Rightarrow> (case top_n res of [] \<Rightarrow> None | h # rest \<Rightarrow> Some (Dict (strip (hfields h)))))"

fun is_text :: "'n val option \<Rightarrow> bool" where
  "is_text (Some (Str s)) = True"
| "is_text _ = False"

definition coded :: "'n fields \<Rightarrow> bool" where
  "coded atb = list_all (\<lambda>k. is_text (map_of atb k)) (''country_code'' # map admincode [0..<4])"

text \<open>
  The table cache against the file: \<open>cache_of t w\<close> when the file holds \<open>t\<close> and the
  instance holds nothing or \<open>t\<close>; \<open>reads_due\<close> counts the reads made plus the one still
  to come while nothing is held; \<open>kept_cache\<close> when a step kept both; \<open>same_cache\<close> when
  it touched neither the cache nor the file.
\<close>

definition cache_of :: "table \<Rightarrow> 'n world \<Rightarrow> bool" where
  "cache_of t w = (codes_file w = Some t \<and> (place_codes w = None \<or> place_codes w = Some t))"

definition reads_due :: "'n world \<Rightarrow> nat" where
  "reads_due w = file_reads w + (if place_codes w = None then 1 else 0)"

definition kept_cache :: "table \<Rightarrow> 'n world \<Rightarrow> 'n world \<Rightarrow> bool" where
  "kept_cache t w w' =
     (cache_of t w' \<and> reads_due w' = reads_due w \<and>
      (place_codes w \<noteq> None \<longrightarrow> place_codes w' \<noteq> None))"

definition same_cache :: "'n world \<Rightarrow> 'n world \<Rightarrow> bool" where
  "same_cache w w' =
     (place_codes w' = place_codes w \<and> codes_file w' = codes_file w \<and> file_reads w' = file_reads w)"

section \<open>Example data\<close>

definition empty_searcher :: "rat searcher" where
  "empty_searcher q limit = Inr \<lparr>top_n = [], total = 0\<rparr>"

definition fresh :: "rat world" where
  "fresh = \<lparr>place_codes = None, codes_file = None, file_reads = 0, searched = []\<rparr>"

text \<open>An index that knows Paris, asked for "pariz": only the fuzzy tiers can match.\<close>

definition typo_searcher :: "rat searcher" where
  "typo_searcher q limit =
     (if q = MultifieldParser name_fields FuzzyTerm ''pariz'' then
        Inr \<lparr>top_n = [\<lparr>hscore = 1, hfields = [(''name'', Str ''Paris'')]\<rparr>], total = 1\<rparr>
      else Inr \<lparr>top_n = [], total = 0\<rparr>)"

text \<open>
  Two lines of a dump with the same id, each ending in a newline, and the values of \<open>float\<close>, \<open>int\<close> and
  \<open>strptime\<close> on the cells they hold.
\<close>

definition tsv :: "string list \<Rightarrow> string" where
  "tsv cells = (case cells of [] \<Rightarrow> [] | c # cs \<Rightarrow> c @ concat (map (\<lambda>x. tab # x) cs))"

definition example_builtins :: "rat builtins" where
  "example_builtins =
     \<lparr>pyfloat = map_of [(''10.0'', 10), (''20.0'', 20)],
      pyint = map_of [(''100'', 100)],
      strptime = map_of [(''2020-01-01'', (2020, 1, 1))]\<rparr>"

definition line_a :: string where
  "line_a =
     tsv [''1'', ''Alpha'', ''Alpha'', '''', ''10.0'', ''20.0'', ''P'', ''PPL'', ''FR'', '''',
          ''11'', '''', '''', '''', ''100'', '''', '''', ''Europe/Paris'', ''2020-01-01'']
       @ [CHR 0x0A]"

definition line_a2 :: string where
  "line_a2 =
     tsv [''1'', ''Alpha two'', ''Alpha'', '''', ''10.0'', ''20.0'', ''P'', ''PPL'', ''FR'', '''',
          ''11'', '''', '''', '''', ''100'', '''', '''', ''Europe/Paris'', ''2020-01-01'']
       @ [CHR 0x0A]"

definition sample_named :: "string \<Rightarrow> rat fields" where
  "sample_named n =
     [(''geonameid'', Str ''1''), (''name'', Str n), (''asciiname'', Str ''Alpha''),
      (''alternatenames'', Str ''''), (''latitude'', Num 10), (''longitude'', Num 20),
      (''feature_class'', Str ''P''), (''feature_code'', Str ''PPL''),
      (''country_code'', Str ''FR''), (''cc2'', Str ''''), (''admin1_code'', Str ''11''),
      (''admin2_code'', Str ''''), (''admin3_code'', Str ''''), (''admin4_code'', Str ''''),
      (''population'', PyInt 100), (''elevation'', PyNone), (''dem'', PyNone),
      (''timezone'', Str ''Europe/Paris''), (''modification_date'', Date 2020 1 1)]"

definition doc_named :: "string \<Rightarrow> rat fields" where
  "doc_named n =
     [(''geonameid'', Str ''1''), (''name'', Str n), (''asciiname'', Str ''Alpha''),
      (''alternatenames'', Str ''''), (''latitude'', Num 10), (''longitude'', Num 20),
      (''feature_class'', Str ''P''), (''feature_code'', Str ''PPL''),
      (''country_code'', Str ''FR''), (''cc2'', Str ''''), (''admin1_code'', Str ''11''),
      (''admin2_code'', Str ''''), (''admin3_code'', Str ''''), (''admin4_code'', Str ''''),
      (''population'', PyInt 100),
      (''timezone'', Str ''Europe/Paris''), (''modification_date'', Date 2020 1 1)]"

definition no_dir :: "rat disk" where
  "no_dir = \<lparr>store = NoDir, ops = []\<rparr>"

definition one_doc :: "rat disk" where
  "one_doc = \<lparr>store = Index [doc_named ''Alpha''], ops = []\<rparr>"

text \<open>An index that holds another place as well.\<close>

definition doc_beta :: "rat fields" where
  "doc_beta =
     [(''geonameid'', Str ''2''), (''name'', Str ''Beta''), (''asciiname'', Str ''Beta''),
      (''alternatenames'', Str ''''), (''latitude'', Num 10), (''longitude'', Num 20),
      (''feature_class'', Str ''P''), (''feature_code'', Str ''PPL''),
      (''country_code'', Str ''FR''), (''cc2'', Str ''''), (''admin1_code'', Str ''11''),
      (''admin2_code'', Str ''''), (''admin3_code'', Str ''''), (''admin4_code'', Str ''''),
      (''population'', PyInt 100),
      (''timezone'', Str ''Europe/Paris''), (''modification_date'', Date 2020 1 1)]"

definition two_docs :: "rat disk" where
  "two_docs = \<lparr>store = Index [doc_beta, doc_named ''Alpha''], ops = []\<rparr>"

text \<open>Two hits, a table file holding \<open>{}\<close> and one holding a class.\<close>

definition paris :: "rat fields" where
  "paris =
     [(''geonameid'', Str ''2988507''), (''name'', Str ''Paris''),
      (''feature_class'', Str ''P''), (''feature_code'', Str ''PPLC''),
      (''country_code'', Str ''FR''), (''admin1_code'', Str ''11'')]"

definition lyon :: "rat fields" where
  "lyon =
     [(''geonameid'', Str ''2996944''), (''name'', Str ''Lyon''),
      (''feature_class'', Str ''P''), (''feature_code'', Str ''PPLA''),
      (''country_code'', Str ''FR''), (''admin1_code'', Str ''84'')]"

definition one_hit_searcher :: "rat searcher" where
  "one_hit_searcher q limit = Inr \<lparr>top_n = [\<lparr>hscore = 1, hfields = paris\<rparr>], total = 1\<rparr>"

definition two_hit_searcher :: "rat searcher" where
  "two_hit_searcher q limit =
     Inr \<lparr>top_n = [\<lparr>hscore = 2, hfields = paris\<rparr>, \<lparr>hscore = 1, hfields = lyon\<rparr>], total = 2\<rparr>"

definition empty_table_world :: "rat world" where
  "empty_table_world = \<lparr>place_codes = None, codes_file = Some [], file_reads = 0, searched = []\<rparr>"

definition city_table :: table where
  "city_table =
     [(''P'', \<lparr>descr = Some ''city, village,...'',
              codes = [(''PPLC'', [(''short'', ''capital of a political entity''), (''full'', '''')])]\<rparr>)]"

definition city_table_world :: "rat world" where
  "city_table_world = \<lparr>place_codes = None, codes_file = Some city_table, file_reads = 0, searched = []\<rparr>"

text \<open>An index in which no term and no parsed text matches, every hit scoring 1.\<close>

definition flat_index :: "rat fields list \<Rightarrow> rat searcher" where
  "flat_index docs = index_search (\<lambda>f t d. False) (\<lambda>fs tc s d. False) (\<lambda>q d. 1) docs"

text \<open>
  A city with codes for levels 1 and 2, and an index that holds the one ADM1 record of its
  region and no ADM2 record.
\<close>

definition city :: "rat fields" where
  "city =
     [(''geonameid'', Str ''2988507''), (''name'', Str ''Paris''),
      (''feature_class'', Str ''P''), (''feature_code'', Str ''PPLC''),
      (''country_code'', Str ''FR''), (''admin1_code'', Str ''11''),
      (''admin2_code'', Str ''75''), (''admin3_code'', Str ''''), (''admin4_code'', Str '''')]"

definition region :: "rat fields" where
  "region =
     [(''geonameid'', Str ''3012874''), (''name'', Str ''Ile-de-France''),
      (''feature_class'', Str ''A''), (''feature_code'', Str ''ADM1''),
      (''country_code'', Str ''FR''), (''cc2'', Str ''''), (''admin1_code'', Str ''11''),
      (''admin2_code'', Str ''''), (''admin3_code'', Str ''''), (''admin4_code'', Str '''')]"

definition region_searcher :: "rat searcher" where
  "region_searcher q limit =
     (if q = And [Term ''country_code'' ''fr'', Term ''admin1_code'' ''11'',
                  Term ''feature_code'' ''adm1''] then
        Inr \<lparr>top_n = [\<lparr>hscore = 1, hfields = region\<rparr>], total = 1\<rparr>
      else Inr \<lparr>top_n = [], total = 0\<rparr>)"

section \<open>Search by name: argument check\<close>

text \<open>
  C3: a call of find with maxdist greater than 2 raises ValueError at once: the state is
  returned as it was, so no query has been sent to the index and nothing has been read.
\<close>

theorem find_rejects_maxdist_above_2:
  "2 < maxdist \<Longrightarrow>
     find_place srch querystr limit maxdist hierarchy expand_codes w = (Inl ValueError, w)"
  by (simp add: find_place_def)

theorem find_rejects_maxdist_above_2_witness:
  "(2::rat) < 3 \<and> find_place empty_searcher ''paris'' 10 3 True True fresh = (Inl ValueError, fresh)"
  using find_rejects_maxdist_above_2 [of 3 empty_searcher "''paris''" 10 True True fresh]
  by simp

lemma find_loop_no_result:
  "\<forall>q. no_result srch q limit \<Longrightarrow>
     find_loop srch qs limit h e lvls found w =
       (Inr (if lvls = [] then found else []),
        w\<lparr>searched := searched w @ map (\<lambda>l. level_query l qs) lvls\<rparr>)"
proof (induction lvls arbitrary: found w)
  case Nil
  then show ?case by simp
next
  case (Cons l ls)
  from Cons.prems have "no_result srch (level_query l qs) limit" by blast
  then obtain res where res: "srch (level_query l qs) limit = Inr res" "top_n res = []"
    by (cases "srch (level_query l qs) limit") (auto simp: no_result_def)
  show ?case
    using res Cons.IH[OF Cons.prems] by (simp add: response_def)
qed

text \<open>
  C10: every maxdist up to 2 passes the check, negative and fractional values too: the
  call goes on to the loop over the levels; the levels are exact, then single unless
  maxdist is 0, then double only if maxdist is 2; on an index without any match the call
  returns the empty list after searching exactly these levels.
\<close>

theorem find_accepts_maxdist_up_to_2:
  assumes "maxdist \<le> 2"
  shows "find_place srch qs limit maxdist h e w =
           find_loop srch qs limit h e (levels maxdist) [] w \<and>
         levels maxdist =
           Exact # (if maxdist \<noteq> 0 then [Single] else []) @ (if maxdist = 2 then [Double] else []) \<and>
         ((\<forall>q. no_result srch q limit) \<longrightarrow>
            find_place srch qs limit maxdist h e w =
              (Inr [], w\<lparr>searched := searched w @ map (\<lambda>l. level_query l qs) (levels maxdist)\<rparr>))"
proof -
  have a: "find_place srch qs limit maxdist h e w =
           find_loop srch qs limit h e (levels maxdist) [] w"
    using assms by (simp add: find_place_def)
  have b: "levels maxdist =
           Exact # (if maxdist \<noteq> 0 then [Single] else []) @ (if maxdist = 2 then [Double] else [])"
    by (simp add: levels_def)
  have c: "(\<forall>q. no_result srch q limit) \<longrightarrow>
            find_place srch qs limit maxdist h e w =
              (Inr [], w\<lparr>searched := searched w @ map (\<lambda>l. level_query l qs) (levels maxdist)\<rparr>)"
    using a find_loop_no_result[of srch limit qs h e "levels maxdist" "[]" w]
    by (simp add: levels_def)
  from a b c show ?thesis by blast
qed

theorem find_accepts_maxdist_up_to_2_witness:
  "(- 1 / 2 :: rat) \<le> 2 \<and> (\<forall>q. no_result empty_searcher q 10) \<and>
   levels (- 1 / 2) = [Exact, Single] \<and>
   find_place empty_searcher ''paris'' 10 (- 1 / 2) True True fresh =
     (Inr [], fresh\<lparr>searched := [level_query Exact ''paris'', level_query Single ''paris'']\<rparr>)"
proof -
  have h: "(- 1 / 2 :: rat) \<le> 2" by simp
  have n: "\<forall>q. no_result empty_searcher q 10" by (simp add: no_result_def empty_searcher_def)
  have l: "levels (- 1 / 2) = [Exact, Single]" by (simp add: levels_def)
  have "find_place empty_searcher ''paris'' 10 (- 1 / 2) True True fresh =
     (Inr [], fresh\<lparr>searched := searched fresh
        @ map (\<lambda>l. level_query l ''paris'') (levels (- 1 / 2))\<rparr>)"
    using find_accepts_maxdist_up_to_2 [OF h, of empty_searcher "''paris''" 10 True True fresh] n
    by blast
  then show ?thesis
    using h n l by (simp add: fresh_def)
qed

section \<open>Search by name: the order of the tiers\<close>

lemma appended_refl: "appended w w"
  by (simp add: appended_def)

lemma appended_trans: "appended w w1 \<Longrightarrow> appended w1 w2 \<Longrightarrow> appended w w2"
  by (auto simp: appended_def)

lemma load_codes_appended: "load_codes w = (r, w') \<Longrightarrow> searched w' = searched w"
  by (auto simp: load_codes_def split: if_splits option.splits)

lemma add_description_searched: "add_description atb w = (r, w') \<Longrightarrow> searched w' = searched w"
  by (auto simp: add_description_def split: prod.splits sum.splits dest: load_codes_appended)

lemma hierarchy_loop_appended:
  "hierarchy_loop srch ls conds atb w = (r, w') \<Longrightarrow> appended w w'"
proof (induction ls arbitrary: conds atb w)
  case Nil
  then show ?case by (simp add: appended_refl)
next
  case (Cons l ls)
  show ?case
    using Cons.prems
    apply (simp add: Let_def split: sum.splits if_splits list.splits)
    apply (auto simp: appended_def dest!: Cons.IH)
    done
qed

lemma add_hierarchy_appended: "add_hierarchy srch atb w = (r, w') \<Longrightarrow> appended w w'"
  by (auto simp: add_hierarchy_def appended_refl split: sum.splits dest: hierarchy_loop_appended)

lemma response_loop_appended:
  "response_loop srch h e hits found w = (r, w') \<Longrightarrow> appended w w'"
proof (induction hits arbitrary: found w)
  case Nil
  then show ?case by (simp add: appended_refl)
next
  case (Cons res rest)
  obtain r1 w1 where s1:
    "(if e then add_description (hfields res) w else (Inr (hfields res), w)) = (r1, w1)"
    by (cases "if e then add_description (hfields res) w else (Inr (hfields res), w)") auto
  have a1: "appended w w1"
    using s1 by (auto simp: appended_def split: if_splits dest: add_description_searched)
  show ?case
  proof (cases r1)
    case (Inl err)
    with Cons.prems s1 a1 show ?thesis by simp
  next
    case (Inr atb1)
    obtain r2 w2 where s2:
      "(if h then add_hierarchy srch atb1 w1 else (Inr atb1, w1)) = (r2, w2)"
      by (cases "if h then add_hierarchy srch atb1 w1 else (Inr atb1, w1)") auto
    have a2: "appended w1 w2"
      using s2 by (auto simp: appended_refl split: if_splits dest: add_hierarchy_appended)
    show ?thesis
    proof (cases r2)
      case (Inl err)
      with Cons.prems s1 s2 Inr a1 a2 show ?thesis
        by (auto intro: appended_trans)
    next
      case (Inr atb2)
      with Cons.prems s1 s2 \<open>r1 = Inr atb1\<close>
      have "response_loop srch h e rest (found @ [\<lparr>score = hscore res, place = atb2\<rparr>]) w2 = (r, w')"
        by simp
      then have "appended w2 w'" by (rule Cons.IH)
      with a1 a2 show ?thesis by (blast intro: appended_trans)
    qed
  qed
qed

lemma response_appended: "response res srch h e w = (r, w') \<Longrightarrow> appended w w'"
  by (auto simp: response_def appended_refl split: if_splits dest: response_loop_appended)

lemma response_loop_length:
  "response_loop srch h e hits found w = (Inr found', w') \<Longrightarrow>
     map score found' = map score found @ map hscore hits"
proof (induction hits arbitrary: found w)
  case Nil
  then show ?case by simp
next
  case (Cons res rest)
  show ?case
    using Cons.prems
    by (auto split: prod.splits sum.splits dest!: Cons.IH)
qed

lemma response_scores:
  "response res srch h e w = (Inr found, w') \<Longrightarrow> map score found = map hscore (top_n res)"
  by (auto simp: response_def split: if_splits dest: response_loop_length)

lemma find_loop_consulted:
  "find_loop srch qs limit h e lvls found w = (r, w') \<Longrightarrow>
     \<exists>new. searched w' = searched w @ new \<and> filter is_tier new = consulted srch qs limit lvls"
proof (induction lvls arbitrary: found w)
  case Nil
  then show ?case by simp
next
  case (Cons l ls)
  let ?q = "level_query l qs :: 'a query"
  let ?w1 = "w\<lparr>searched := searched w @ [?q]\<rparr>"
  have tq: "is_tier ?q" by (cases l) simp_all
  show ?case
  proof (cases "srch ?q limit")
    case (Inl err)
    with Cons.prems tq show ?thesis
      by (intro exI[of _ "[?q]"]) (auto simp: no_result_def)
  next
    case (Inr res)
    obtain r2 w2 where s2: "response res srch h e ?w1 = (r2, w2)"
      by (cases "response res srch h e ?w1") auto
    from response_appended[OF s2] obtain new2 where
      n2: "searched w2 = searched w @ [?q] @ new2" "filter is_tier new2 = []"
      by (auto simp: appended_def)
    show ?thesis
    proof (cases r2)
      case (Inl err)
      have "top_n res \<noteq> []" using s2 Inl by (auto simp: response_def split: if_splits)
      with Cons.prems Inr s2 Inl n2 tq show ?thesis
        by (intro exI[of _ "?q # new2"]) (auto simp: no_result_def)
    next
      case found2: (Inr found2)
      show ?thesis
      proof (cases "found2 = []")
        case False
        have "top_n res \<noteq> []" using s2 found2 False by (auto simp: response_def split: if_splits)
        with Cons.prems Inr s2 found2 False n2 tq show ?thesis
          by (intro exI[of _ "?q # new2"]) (auto simp: no_result_def)
      next
        case True
        have "map hscore (top_n res) = []" using response_scores[of res srch h e ?w1 found2 w2] s2 found2 True by simp
        then have e: "top_n res = []" by simp
        from Cons.prems Inr s2 found2 True
        have "find_loop srch qs limit h e ls found2 w2 = (r, w')" by simp
        from Cons.IH[OF this] obtain new3 where
          "searched w' = searched w2 @ new3" "filter is_tier new3 = consulted srch qs limit ls"
          by blast
        with n2 e Inr tq show ?thesis
          by (intro exI[of _ "?q # new2 @ new3"]) (auto simp: no_result_def)
      qed
    qed
  qed
qed


lemma consulted_nonempty: "lvls \<noteq> [] \<Longrightarrow> consulted srch qs limit lvls \<noteq> []"
  by (cases lvls) simp_all

lemma find_loop_source:
  "find_loop srch qs limit h e lvls found w = (Inr found', w') \<Longrightarrow> lvls \<noteq> [] \<Longrightarrow>
     \<exists>res. srch (last (consulted srch qs limit lvls)) limit = Inr res \<and>
           map score found' = map hscore (top_n res)"
proof (induction lvls arbitrary: found w)
  case Nil
  then show ?case by simp
next
  case (Cons l ls)
  let ?q = "level_query l qs :: 'a query"
  let ?w1 = "w\<lparr>searched := searched w @ [?q]\<rparr>"
  from Cons.prems(1) obtain res where res: "srch ?q limit = Inr res"
    by (cases "srch ?q limit") (auto simp: Let_def)
  obtain r2 w2 where s2: "response res srch h e ?w1 = (r2, w2)"
    by (cases "response res srch h e ?w1") auto
  from Cons.prems(1) res s2 obtain found2 where f2: "r2 = Inr found2"
    by (cases r2) (auto simp: Let_def)
  have sc: "map score found2 = map hscore (top_n res)"
    using response_scores s2 f2 by blast
  show ?case
  proof (cases "found2 = []")
    case False
    then have "top_n res \<noteq> []" using sc by auto
    moreover have "found' = found2" using Cons.prems(1) res s2 f2 False by simp
    ultimately show ?thesis using res sc by (simp add: no_result_def)
  next
    case True
    then have e: "top_n res = []" using sc by simp
    have rec: "find_loop srch qs limit h e ls found2 w2 = (Inr found', w')"
      using Cons.prems(1) res s2 f2 True by simp
    show ?thesis
    proof (cases "ls = []")
      case True
      with rec \<open>found2 = []\<close> have "found' = []" by simp
      with True res e show ?thesis by (simp add: no_result_def)
    next
      case False
      from Cons.IH[OF rec False] obtain res' where
        "srch (last (consulted srch qs limit ls)) limit = Inr res'"
        "map score found' = map hscore (top_n res')" by blast
      with False res e show ?thesis by (simp add: no_result_def consulted_nonempty)
    qed
  qed
qed

lemma consulted_levels:
  "consulted srch qs limit (levels maxdist) =
     level_query Exact qs #
       (if maxdist \<noteq> 0 \<and> no_result srch (level_query Exact qs) limit then
          level_query Single qs #
            (if maxdist = 2 \<and> no_result srch (level_query Single qs) limit then
               [level_query Double qs]
             else [])
        else [])"
  by (simp add: levels_def)

text \<open>
  C1: in a call of find that passes the argument check, the tier queries sent to the index
  are the exact one, then the single-fuzzy one only if it is enabled and the exact search
  gave no result, then the double-fuzzy one only if maxdist is 2 and the single-fuzzy
  search gave no result either; the entries returned are one per scored hit of the last
  tier searched.
\<close>

theorem find_tiers_in_order:
  assumes "maxdist \<le> 2"
    and "find_place srch qs limit maxdist h e w = (r, w')"
  shows "\<exists>new. searched w' = searched w @ new \<and>
           filter is_tier new =
             level_query Exact qs #
               (if maxdist \<noteq> 0 \<and> no_result srch (level_query Exact qs) limit then
                  level_query Single qs #
                    (if maxdist = 2 \<and> no_result srch (level_query Single qs) limit then
                       [level_query Double qs]
                     else [])
                else []) \<and>
           (\<forall>found. r = Inr found \<longrightarrow>
              (\<exists>res. srch (last (filter is_tier new)) limit = Inr res \<and>
                     map score found = map hscore (top_n res)))"
proof -
  from assms have fl: "find_loop srch qs limit h e (levels maxdist) [] w = (r, w')"
    by (simp add: find_place_def)
  from find_loop_consulted[OF fl] obtain new where
    new: "searched w' = searched w @ new"
         "filter is_tier new = consulted srch qs limit (levels maxdist)"
    by blast
  have ne: "levels maxdist \<noteq> []" by (simp add: levels_def)
  have src: "\<forall>found. r = Inr found \<longrightarrow>
              (\<exists>res. srch (last (filter is_tier new)) limit = Inr res \<and>
                     map score found = map hscore (top_n res))"
    using find_loop_source[of srch qs limit h e "levels maxdist" "[]" w _ w'] fl ne new(2)
    by auto
  show ?thesis
    using new src unfolding consulted_levels by blast
qed

lemma typo_run:
  "find_place typo_searcher ''pariz'' 10 2 False False fresh =
     (Inr [\<lparr>score = 1, place = [(''name'', Str ''Paris'')]\<rparr>],
      fresh\<lparr>searched := [level_query Exact ''pariz'', level_query Single ''pariz'']\<rparr>)"
  by (simp add: find_place_def levels_def typo_searcher_def fresh_def response_def name_fields_def)


theorem find_tiers_in_order_witness:
  "(2::rat) \<le> 2 \<and>
   find_place typo_searcher ''pariz'' 10 2 False False fresh =
     (Inr [\<lparr>score = 1, place = [(''name'', Str ''Paris'')]\<rparr>],
      fresh\<lparr>searched := [level_query Exact ''pariz'', level_query Single ''pariz'']\<rparr>) \<and>
   filter is_tier [level_query Exact ''pariz'', level_query Single ''pariz'' :: rat query] =
     [level_query Exact ''pariz'', level_query Single ''pariz''] \<and>
   no_result typo_searcher (level_query Exact ''pariz'') 10 \<and>
   \<not> no_result typo_searcher (level_query Single ''pariz'') 10"
  using find_tiers_in_order [OF _ typo_run] typo_run
  by (simp add: no_result_def typo_searcher_def name_fields_def)

section \<open>Result enricher\<close>

lemma describe_unknown_class:
  "map_of tbl c = None \<Longrightarrow> map_of atb ''feature_class'' = Some (Str c) \<Longrightarrow>
   map_of atb ''feature_code'' = Some (Str k) \<Longrightarrow>
     describe tbl atb =
       Inr (AList.update ''feature_code_full'' (Str '''')
             (AList.update ''feature_code_short'' (Str '''')
               (AList.update ''feature_class_descr'' PyNone atb)))"
  by (simp add: describe_def get_or_def get_by_def)

lemma describe_unknown_code:
  "map_of tbl c = Some fc \<Longrightarrow> map_of (codes fc) k = None \<Longrightarrow>
   map_of atb ''feature_class'' = Some (Str c) \<Longrightarrow>
   map_of atb ''feature_code'' = Some (Str k) \<Longrightarrow>
     describe tbl atb =
       Inr (AList.update ''feature_code_full'' (Str '''')
             (AList.update ''feature_code_short'' (Str '''')
               (AList.update ''feature_class_descr''
                  (case descr fc of None \<Rightarrow> PyNone | Some s \<Rightarrow> Str s) atb)))"
  by (simp add: describe_def get_or_def get_by_def)

text \<open>
  C7: where the file placecodes.json does not exist, enriching a record raises
  FileNotFoundError, and so does a search with expand_codes on that has a hit. (A class or
  code that the loaded table lacks gives None and empty strings: the two lemmas above.)
\<close>

theorem enrich_fails_without_table_file:
  "add_description paris fresh = (Inl FileNotFoundError, fresh) \<and>
   find_place one_hit_searcher ''paris'' 10 2 True True fresh =
     (Inl FileNotFoundError, fresh\<lparr>searched := [level_query Exact ''paris'']\<rparr>)"
  by (simp add: add_description_def load_codes_def fresh_def find_place_def levels_def
      one_hit_searcher_def response_def)

lemma load_codes_cached:
  "place_codes w = Some t \<Longrightarrow> t \<noteq> [] \<Longrightarrow> load_codes w = (Inr t, w)"
  by (simp add: load_codes_def)

lemma same_cache_refl: "same_cache w w"
  by (simp add: same_cache_def)

lemma same_cache_trans: "same_cache w w1 \<Longrightarrow> same_cache w1 w2 \<Longrightarrow> same_cache w w2"
  by (simp add: same_cache_def)

lemma hierarchy_loop_cache:
  "hierarchy_loop srch ls conds atb w = (r, w') \<Longrightarrow> same_cache w w'"
proof (induction ls arbitrary: conds atb w)
  case Nil
  then show ?case by (simp add: same_cache_refl)
next
  case (Cons l ls)
  have s: "\<And>q. same_cache w (w\<lparr>searched := searched w @ [q]\<rparr>)" by (simp add: same_cache_def)
  show ?case
    using Cons.prems
    apply (simp add: Let_def split: sum.splits if_splits list.splits)
    apply (auto simp: same_cache_refl s dest!: Cons.IH intro: same_cache_trans[OF s])
    done
qed

lemma add_hierarchy_cache: "add_hierarchy srch atb w = (r, w') \<Longrightarrow> same_cache w w'"
  by (auto simp: add_hierarchy_def same_cache_refl split: sum.splits dest: hierarchy_loop_cache)

lemma kept_cache_trans: "kept_cache t w w1 \<Longrightarrow> kept_cache t w1 w2 \<Longrightarrow> kept_cache t w w2"
  by (simp add: kept_cache_def)

lemma kept_cache_refl: "cache_of t w \<Longrightarrow> kept_cache t w w"
  by (simp add: kept_cache_def)

lemma kept_cache_of: "kept_cache t w w' \<Longrightarrow> cache_of t w'"
  by (simp add: kept_cache_def)

lemma add_description_cache:
  "add_description atb w = (r, w') \<Longrightarrow> cache_of t w \<Longrightarrow> t \<noteq> [] \<Longrightarrow> kept_cache t w w'"
  by (auto simp: add_description_def load_codes_def cache_of_def reads_due_def kept_cache_def
      split: prod.splits sum.splits if_splits option.splits)

lemma same_cache_keeps: "same_cache w w' \<Longrightarrow> cache_of t w \<Longrightarrow> kept_cache t w w'"
  by (simp add: same_cache_def cache_of_def reads_due_def kept_cache_def)

lemma response_loop_cache:
  "response_loop srch h e hits found w = (r, w') \<Longrightarrow> cache_of t w \<Longrightarrow> t \<noteq> [] \<Longrightarrow>
     kept_cache t w w'"
proof (induction hits arbitrary: found w)
  case Nil
  then show ?case by (simp add: kept_cache_refl)
next
  case (Cons res rest)
  obtain r1 w1 where s1:
    "(if e then add_description (hfields res) w else (Inr (hfields res), w)) = (r1, w1)"
    by (cases "if e then add_description (hfields res) w else (Inr (hfields res), w)") auto
  have a1: "kept_cache t w w1"
    using s1 Cons.prems(2,3)
    by (auto simp: kept_cache_refl split: if_splits dest: add_description_cache)
  show ?case
  proof (cases r1)
    case (Inl err)
    with Cons.prems(1) s1 a1 show ?thesis by simp
  next
    case (Inr atb1)
    obtain r2 w2 where s2:
      "(if h then add_hierarchy srch atb1 w1 else (Inr atb1, w1)) = (r2, w2)"
      by (cases "if h then add_hierarchy srch atb1 w1 else (Inr atb1, w1)") auto
    have "same_cache w1 w2"
      using s2 by (auto simp: same_cache_refl split: if_splits dest: add_hierarchy_cache)
    then have "kept_cache t w1 w2" using kept_cache_of[OF a1] by (rule same_cache_keeps)
    with a1 have a2: "kept_cache t w w2" by (rule kept_cache_trans)
    show ?thesis
    proof (cases r2)
      case (Inl err)
      with Cons.prems(1) s1 s2 Inr a2 show ?thesis by simp
    next
      case (Inr atb2)
      with Cons.prems(1) s1 s2 \<open>r1 = Inr atb1\<close>
      have "response_loop srch h e rest (found @ [\<lparr>score = hscore res, place = atb2\<rparr>]) w2 = (r, w')"
        by simp
      from Cons.IH[OF this kept_cache_of[OF a2] Cons.prems(3)] a2 show ?thesis
        by (blast intro: kept_cache_trans)
    qed
  qed
qed

lemma response_cache:
  "response res srch h e w = (r, w') \<Longrightarrow> cache_of t w \<Longrightarrow> t \<noteq> [] \<Longrightarrow> kept_cache t w w'"
  by (auto simp: response_def kept_cache_refl split: if_splits dest: response_loop_cache)

lemma find_loop_cache:
  "find_loop srch qs limit h e lvls found w = (r, w') \<Longrightarrow> cache_of t w \<Longrightarrow> t \<noteq> [] \<Longrightarrow>
     kept_cache t w w'"
proof (induction lvls arbitrary: found w)
  case Nil
  then show ?case by (simp add: kept_cache_refl)
next
  case (Cons l ls)
  let ?q = "level_query l qs :: 'a query"
  let ?w1 = "w\<lparr>searched := searched w @ [?q]\<rparr>"
  have c1: "kept_cache t w ?w1"
    using Cons.prems(2) by (simp add: cache_of_def reads_due_def kept_cache_def)
  show ?case
  proof (cases "srch ?q limit")
    case (Inl err)
    with Cons.prems(1) c1 show ?thesis by (auto simp: Let_def)
  next
    case (Inr res)
    obtain r2 w2 where s2: "response res srch h e ?w1 = (r2, w2)"
      by (cases "response res srch h e ?w1") auto
    from response_cache[OF s2 kept_cache_of[OF c1] Cons.prems(3)] c1
    have c2: "kept_cache t w w2" by (blast intro: kept_cache_trans)
    show ?thesis
    proof (cases r2)
      case (Inl err)
      with Cons.prems(1) Inr s2 c2 show ?thesis by (auto simp: Let_def)
    next
      case found2: (Inr found2)
      show ?thesis
      proof (cases "found2 = []")
        case False
        with Cons.prems(1) Inr s2 found2 c2 show ?thesis by (auto simp: Let_def)
      next
        case True
        with Cons.prems(1) Inr s2 found2
        have "find_loop srch qs limit h e ls found2 w2 = (r, w')" by (simp add: Let_def)
        from Cons.IH[OF this kept_cache_of[OF c2] Cons.prems(3)] c2 show ?thesis
          by (blast intro: kept_cache_trans)
      qed
    qed
  qed
qed

lemma nonempty_table_read_once:
  assumes "find_place srch qs limit maxdist h e w = (r, w')"
    and "codes_file w = Some t" and "t \<noteq> []"
    and "place_codes w = None \<or> place_codes w = Some t"
  shows "file_reads w' \<le> Suc (file_reads w) \<and>
         (place_codes w = Some t \<longrightarrow> file_reads w' = file_reads w)"
proof (cases "2 < maxdist")
  case True
  with assms(1) show ?thesis by (simp add: find_place_def)
next
  case False
  with assms(1) have "find_loop srch qs limit h e (levels maxdist) [] w = (r, w')"
    by (simp add: find_place_def)
  moreover have "cache_of t w" using assms(2,4) by (simp add: cache_of_def)
  ultimately have "kept_cache t w w'" using assms(3) by (rule find_loop_cache)
  then show ?thesis by (auto simp: reads_due_def kept_cache_def split: if_splits)
qed

text \<open>
  C9: with a table file that holds the empty object, a search with two hits reads the file
  twice, once for each hit; with a table that has an entry it reads the file once (and in
  general at most once: lemma \<open>nonempty_table_read_once\<close>).
\<close>

theorem empty_table_is_read_again:
  "file_reads (snd (find_place two_hit_searcher ''paris'' 10 2 False True empty_table_world)) = 2 \<and>
   file_reads (snd (find_place two_hit_searcher ''paris'' 10 2 False True city_table_world)) = 1"
  by (simp add: find_place_def levels_def two_hit_searcher_def response_def
      add_description_def load_codes_def empty_table_world_def city_table_world_def city_table_def
      describe_def get_or_def get_by_def paris_def lyon_def)

section \<open>Hierarchy resolver\<close>

lemma fnum_length: "length fnum = 4"
  by (simp add: fnum_def)

lemma fnum_nth_length: "n < 4 \<Longrightarrow> length (fnum ! n) = 1"
proof -
  assume "n < 4"
  then have "n = 0 \<or> n = 1 \<or> n = 2 \<or> n = 3" by arith
  then show ?thesis by (auto simp: fnum_def)
qed

lemma fnum_distinct: "distinct fnum"
  by (simp add: fnum_def)

lemma adminkey_inj: "m < 4 \<Longrightarrow> n < 4 \<Longrightarrow> adminkey m = adminkey n \<longleftrightarrow> m = n"
  using fnum_distinct by (simp add: adminkey_def nth_eq_iff_index_eq fnum_length)

lemma admincode_not_key: "m < 4 \<Longrightarrow> n < 4 \<Longrightarrow> admincode m \<noteq> adminkey n"
proof
  assume a: "m < 4" "n < 4" "admincode m = adminkey n"
  then have "fnum ! m @ ''_code'' = fnum ! n" by (simp add: admincode_def adminkey_def)
  then have "length (fnum ! m @ ''_code'') = length (fnum ! n)" by simp
  with a(1,2) show False by (simp add: fnum_nth_length)
qed

lemma country_not_key: "''country_code'' \<noteq> adminkey n"
  by (simp add: adminkey_def)

lemma is_text_Str: "is_text x \<Longrightarrow> \<exists>s. x = Some (Str s)"
  by (cases x rule: is_text.cases) simp_all

lemma coded_code: "coded atb \<Longrightarrow> n < 4 \<Longrightarrow> \<exists>s. map_of atb (admincode n) = Some (Str s)"
  by (rule is_text_Str) (simp add: coded_def list_all_iff)

lemma coded_country: "coded atb \<Longrightarrow> \<exists>s. map_of atb ''country_code'' = Some (Str s)"
  by (rule is_text_Str) (simp add: coded_def)

lemma lower_field_lowered:
  "map_of atb k = Some (Str s) \<Longrightarrow> lower_field atb k = Inr (lowered atb k)"
  by (simp add: lower_field_def lowered_def)


lemma filter_none: "(\<And>x. x \<in> set xs \<Longrightarrow> \<not> P x) \<Longrightarrow> filter P xs = []"
  by (induction xs) auto

lemma not_queried_after:
  "\<not> unique_match srch atb n \<Longrightarrow> n < m \<Longrightarrow> \<not> queried srch atb m"
  unfolding queried_def list_all_iff by (auto simp del: upt_Suc intro!: bexI[of _ n])

lemma not_resolved_after:
  "\<not> unique_match srch atb n \<Longrightarrow> n \<le> m \<Longrightarrow> \<not> resolved srch atb m"
  unfolding resolved_def list_all_iff by (auto simp del: upt_Suc intro!: bexI[of _ n])

lemma queried_tail_none:
  "\<not> unique_match srch atb n \<Longrightarrow> filter (queried srch atb) [Suc n..<4] = []"
proof (rule filter_none)
  fix x
  assume "\<not> unique_match srch atb n" and "x \<in> set [Suc n..<4]"
  then show "\<not> queried srch atb x"
    using not_queried_after[of srch atb n x] by simp
qed

lemma hierarchy_from:
  assumes wf: "coded atb0"
    and ans: "\<And>k. k < 4 \<Longrightarrow>
               \<exists>res. srch (containment_query atb0 k) 10 = Inr res \<and> (total res = 1 \<longrightarrow> top_n res \<noteq> [])"
  shows "n \<le> 4 \<Longrightarrow>
     (\<And>k. k \<notin> adminkey ` {..<4} \<Longrightarrow> map_of atb k = map_of atb0 k) \<Longrightarrow>
     list_all (unique_match srch atb0) [0..<n] \<Longrightarrow>
     conds = Term ''country_code'' (lowered atb0 ''country_code'')
               # map (\<lambda>k. Term (admincode k) (lowered atb0 (admincode k))) [0..<n] \<Longrightarrow>
     \<exists>atb'. hierarchy_loop srch (drop n fnum) conds atb w =
              (Inr atb', w\<lparr>searched := searched w
                  @ map (containment_query atb0) (filter (queried srch atb0) [n..<4])\<rparr>) \<and>
            (\<forall>m. n \<le> m \<and> m < 4 \<longrightarrow>
               map_of atb' (adminkey m) =
                 (if resolved srch atb0 m then summary srch atb0 m else map_of atb (adminkey m))) \<and>
            (\<forall>k. k \<notin> adminkey ` {n..<4} \<longrightarrow> map_of atb' k = map_of atb k)"
proof (induction "4 - n" arbitrary: n conds atb w)
  case 0
  then have "n = 4" by simp
  then show ?case by (auto simp: fnum_length)
next
  case (Suc d)
  then have n4: "n < 4" by simp
  have dr: "drop n fnum = fnum ! n # drop (Suc n) fnum"
    using n4 by (simp add: Cons_nth_drop_Suc fnum_length)
  have up: "[n..<4] = n # [Suc n..<4]" using n4 by (simp add: upt_conv_Cons)
  from coded_code[OF wf n4] obtain s where s0: "map_of atb0 (admincode n) = Some (Str s)" by blast
  have "admincode n \<notin> adminkey ` {..<4}" using admincode_not_key[OF n4] by auto
  then have "map_of atb (admincode n) = Some (Str s)" using Suc.prems(2) s0 by simp
  then have lf: "lower_field atb (''admin'' @ fnum ! n @ ''_code'') = Inr (lowered atb0 (admincode n))"
    using s0 by (simp add: lower_field_def lowered_def admincode_def)
  let ?v = "lowered atb0 (admincode n)"
  let ?conds = "conds @ [Term (admincode n) ?v]"
  let ?q = "containment_query atb0 n"
  have q: "And (?conds @ [Term ''feature_code'' (''adm'' @ fnum ! n)]) = ?q"
    using Suc.prems(4) by (simp add: containment_query_def)
  have reached: "list_all (unique_match srch atb0) [0..<n]" by (rule Suc.prems(3))
  show ?case
  proof (cases "?v = []")
    case True
    then have nu: "\<not> unique_match srch atb0 n" by (simp add: unique_match_def)
    have nq: "\<not> queried srch atb0 n" using True by (simp add: queried_def)
    have "hierarchy_loop srch (drop n fnum) conds atb w = (Inr atb, w)"
      using dr lf True by (simp add: Let_def)
    moreover have "filter (queried srch atb0) [n..<4] = []"
      using up nq queried_tail_none[OF nu] by simp
    ultimately show ?thesis
      using not_resolved_after[OF nu] by simp
  next
    case False
    from ans[OF n4] obtain res where
      sr: "srch ?q 10 = Inr res" and tn: "total res = 1 \<longrightarrow> top_n res \<noteq> []" by blast
    let ?w = "w\<lparr>searched := searched w @ [?q]\<rparr>"
    have qd: "queried srch atb0 n" using False reached by (simp add: queried_def)
    show ?thesis
    proof (cases "total res = 1")
      case neq: False
      then have nu: "\<not> unique_match srch atb0 n" using sr by (simp add: unique_match_def)
      have "hierarchy_loop srch (drop n fnum) conds atb w = (Inr atb, ?w)"
        using dr lf False sr neq q by (simp add: Let_def admincode_def)
      moreover have "filter (queried srch atb0) [n..<4] = [n]"
        using up qd queried_tail_none[OF nu] by simp
      ultimately show ?thesis
        using not_resolved_after[OF nu] by simp
    next
      case True
      with tn obtain h rest where top: "top_n res = h # rest" by (cases "top_n res") auto
      have um: "unique_match srch atb0 n" using False sr True by (simp add: unique_match_def)
      have sm: "summary srch atb0 n = Some (Dict (strip (hfields h)))"
        using sr top by (simp add: summary_def)
      let ?atb = "AList.update (adminkey n) (Dict (strip (hfields h))) atb"
      have step: "hierarchy_loop srch (drop n fnum) conds atb w =
                    hierarchy_loop srch (drop (Suc n) fnum) ?conds ?atb ?w"
        using dr lf False sr True top q by (simp add: Let_def admincode_def adminkey_def)
      have d: "d = 4 - Suc n" using Suc.hyps(2) by simp
      have le: "Suc n \<le> 4" using n4 by simp
      have ag: "\<And>k. k \<notin> adminkey ` {..<4} \<Longrightarrow> map_of ?atb k = map_of atb0 k"
      proof -
        fix k assume k: "k \<notin> adminkey ` {..<4}"
        then have "k \<noteq> adminkey n" using n4 by auto
        then show "map_of ?atb k = map_of atb0 k"
          using Suc.prems(2)[OF k] by (simp add: update_conv')
      qed
      have re: "list_all (unique_match srch atb0) [0..<Suc n]" using reached um by simp
      have cs: "?conds = Term ''country_code'' (lowered atb0 ''country_code'')
               # map (\<lambda>k. Term (admincode k) (lowered atb0 (admincode k))) [0..<Suc n]"
        using Suc.prems(4) by simp
      from Suc.hyps(1)[OF d le ag re cs, of ?w] obtain atb' where
        r: "hierarchy_loop srch (drop (Suc n) fnum) ?conds ?atb ?w =
              (Inr atb', ?w\<lparr>searched := searched ?w
                  @ map (containment_query atb0) (filter (queried srch atb0) [Suc n..<4])\<rparr>)"
        and at: "\<forall>m. Suc n \<le> m \<and> m < 4 \<longrightarrow>
               map_of atb' (adminkey m) =
                 (if resolved srch atb0 m then summary srch atb0 m else map_of ?atb (adminkey m))"
        and ot: "\<forall>k. k \<notin> adminkey ` {Suc n..<4} \<longrightarrow> map_of atb' k = map_of ?atb k"
        by blast
      have rn: "resolved srch atb0 n" using re by (simp add: resolved_def)
      have c1: "hierarchy_loop srch (drop n fnum) conds atb w =
              (Inr atb', w\<lparr>searched := searched w
                  @ map (containment_query atb0) (filter (queried srch atb0) [n..<4])\<rparr>)"
        using step r up qd by simp
      have c2: "\<forall>m. n \<le> m \<and> m < 4 \<longrightarrow>
               map_of atb' (adminkey m) =
                 (if resolved srch atb0 m then summary srch atb0 m else map_of atb (adminkey m))"
      proof (intro allI impI)
        fix m assume m: "n \<le> m \<and> m < 4"
        show "map_of atb' (adminkey m) =
                 (if resolved srch atb0 m then summary srch atb0 m else map_of atb (adminkey m))"
        proof (cases "m = n")
          case True
          have "adminkey n \<notin> adminkey ` {Suc n..<4}"
            using n4 by (auto simp: adminkey_inj)
          with ot have "map_of atb' (adminkey n) = map_of ?atb (adminkey n)" by blast
          with True rn sm show ?thesis by (simp add: update_conv')
        next
          case False
          with m have sm': "Suc n \<le> m \<and> m < 4" by simp
          have "adminkey m \<noteq> adminkey n" using False m n4 by (simp add: adminkey_inj)
          with at sm' show ?thesis by (simp add: update_conv')
        qed
      qed
      have c3: "\<forall>k. k \<notin> adminkey ` {n..<4} \<longrightarrow> map_of atb' k = map_of atb k"
      proof (intro allI impI)
        fix k assume k: "k \<notin> adminkey ` {n..<4}"
        then have k1: "k \<notin> adminkey ` {Suc n..<4}" by auto
        from k n4 have k2: "k \<noteq> adminkey n" by auto
        from ot k1 have "map_of atb' k = map_of ?atb k" by blast
        with k2 show "map_of atb' k = map_of atb k" by (simp add: update_conv')
      qed
      from c1 c2 c3 show ?thesis by blast
    qed
  qed
qed

lemma map_of_fold_delete:
  "map_of (fold AList.delete ks al) k = (if k \<in> set ks then None else map_of al k)"
  by (induction ks arbitrary: al) (simp_all add: delete_conv')

lemma upt_4: "[0..<4] = [0, 1, 2, Suc 2]"
  by (simp add: upt_conv_Cons)

text \<open>
  C4: for a record that has its country and admin codes, on an index that answers the four
  containment queries, the resolver returns; it has sent the query of a level exactly when
  every earlier level had a unique match and the level's own code is not empty, so at most
  four queries and none after the first level that stops the walk; the key of a level holds
  the stripped summary of the match exactly when that level and all before it had a unique
  match, and is untouched otherwise; every other key is untouched; a stripped summary has
  none of the keys admin1_code to admin4_code, feature_code, feature_class, country_code,
  cc2 and keeps the rest.
\<close>

theorem add_hierarchy_levels:
  assumes "coded (atb :: 'a fields)"
    and "\<forall>k<4. \<exists>res. srch (containment_query atb k) 10 = Inr res \<and>
                      (total res = 1 \<longrightarrow> top_n res \<noteq> [])"
  shows "(\<exists>atb'. add_hierarchy srch atb w =
                  (Inr atb', w\<lparr>searched := searched w
                      @ map (containment_query atb) (filter (queried srch atb) [0..<4])\<rparr>) \<and>
                (\<forall>n<4. map_of atb' (adminkey n) =
                          (if resolved srch atb n then summary srch atb n
                           else map_of atb (adminkey n))) \<and>
                (\<forall>k. k \<notin> adminkey ` {..<4} \<longrightarrow> map_of atb' k = map_of atb k)) \<and>
         (\<forall>(other :: 'a fields) k. map_of (strip other) k =
                      (if k \<in> set excludeatb then None else map_of other k))"
proof -
  from coded_country[OF assms(1)] obtain s where c: "map_of atb ''country_code'' = Some (Str s)"
    by blast
  have start: "add_hierarchy srch atb w =
      hierarchy_loop srch (drop 0 fnum) [Term ''country_code'' (lowered atb ''country_code'')] atb w"
    using c by (simp add: add_hierarchy_def lower_field_def lowered_def)
  have ans: "\<And>k. k < 4 \<Longrightarrow>
      \<exists>res. srch (containment_query atb k) 10 = Inr res \<and> (total res = 1 \<longrightarrow> top_n res \<noteq> [])"
    using assms(2) by blast
  from hierarchy_from[of atb srch 0 atb
      "[Term ''country_code'' (lowered atb ''country_code'')]" w, OF assms(1) ans]
  obtain atb' where
    r: "hierarchy_loop srch (drop 0 fnum) [Term ''country_code'' (lowered atb ''country_code'')] atb w =
          (Inr atb', w\<lparr>searched := searched w
              @ map (containment_query atb) (filter (queried srch atb) [0..<4])\<rparr>)"
    and at: "\<forall>m. 0 \<le> m \<and> m < 4 \<longrightarrow>
          map_of atb' (adminkey m) =
            (if resolved srch atb m then summary srch atb m else map_of atb (adminkey m))"
    and ot: "\<forall>k. k \<notin> adminkey ` {0..<4} \<longrightarrow> map_of atb' k = map_of atb k"
    by auto
  have "{0..<4::nat} = {..<4}" by auto
  with ot have ot': "\<forall>k. k \<notin> adminkey ` {..<4} \<longrightarrow> map_of atb' k = map_of atb k" by simp
  from start r at ot'
  have a: "\<exists>atb'. add_hierarchy srch atb w =
                  (Inr atb', w\<lparr>searched := searched w
                      @ map (containment_query atb) (filter (queried srch atb) [0..<4])\<rparr>) \<and>
                (\<forall>n<4. map_of atb' (adminkey n) =
                          (if resolved srch atb n then summary srch atb n
                           else map_of atb (adminkey n))) \<and>
                (\<forall>k. k \<notin> adminkey ` {..<4} \<longrightarrow> map_of atb' k = map_of atb k)"
    by auto
  have b: "\<forall>(other :: 'a fields) k. map_of (strip other) k =
                      (if k \<in> set excludeatb then None else map_of other k)"
    by (simp only: strip_def map_of_fold_delete) simp
  from a b show ?thesis by blast
qed

lemma city_coded: "coded city"
  by (simp add: coded_def city_def admincode_def fnum_def upt_4)

lemma lower_examples:
  "lower ''FR'' = ''fr''" "lower ''11'' = ''11''" "lower ''75'' = ''75''" "lower [] = []"
  by code_simp+

lemma city_queries:
  "containment_query city 0 =
     And [Term ''country_code'' ''fr'', Term ''admin1_code'' ''11'', Term ''feature_code'' ''adm1'']"
  "containment_query city (Suc 0) =
     And [Term ''country_code'' ''fr'', Term ''admin1_code'' ''11'', Term ''admin2_code'' ''75'',
          Term ''feature_code'' ''adm2'']"
  by (simp_all add: containment_query_def city_def admincode_def fnum_def lowered_def
      lower_examples)

lemma city_answers:
  "\<forall>k<4. \<exists>res. region_searcher (containment_query city k) 10 = Inr res \<and>
                 (total res = 1 \<longrightarrow> top_n res \<noteq> [])"
  by (simp add: region_searcher_def)

lemma city_run:
  "add_hierarchy region_searcher city fresh =
     (Inr (city @ [(''admin1'', Dict [(''geonameid'', Str ''3012874''),
                                       (''name'', Str ''Ile-de-France'')])]),
      fresh\<lparr>searched := [And [Term ''country_code'' ''fr'', Term ''admin1_code'' ''11'',
                                Term ''feature_code'' ''adm1''],
                           And [Term ''country_code'' ''fr'', Term ''admin1_code'' ''11'',
                                Term ''admin2_code'' ''75'', Term ''feature_code'' ''adm2'']]\<rparr>)"
  by (simp add: add_hierarchy_def lower_field_def city_def fnum_def lower_examples Let_def
      region_searcher_def region_def strip_def excludeatb_def fresh_def)

theorem add_hierarchy_levels_witness:
  "coded city \<and>
   resolved region_searcher city 0 \<and> \<not> resolved region_searcher city (Suc 0) \<and>
   add_hierarchy region_searcher city fresh =
     (Inr (city @ [(''admin1'', Dict [(''geonameid'', Str ''3012874''),
                                       (''name'', Str ''Ile-de-France'')])]),
      fresh\<lparr>searched := [And [Term ''country_code'' ''fr'', Term ''admin1_code'' ''11'',
                                Term ''feature_code'' ''adm1''],
                           And [Term ''country_code'' ''fr'', Term ''admin1_code'' ''11'',
                                Term ''admin2_code'' ''75'', Term ''feature_code'' ''adm2'']]\<rparr>) \<and>
   map_of (city @ [(''admin1'', Dict [(''geonameid'', Str ''3012874''),
                                       (''name'', Str ''Ile-de-France'')])]) (adminkey (Suc 0)) = None"
proof -
  have r0: "resolved region_searcher city 0"
    by (simp add: resolved_def unique_match_def city_queries region_searcher_def)
       (simp add: lowered_def city_def admincode_def fnum_def lower_examples)
  have "\<not> unique_match region_searcher city (Suc 0)"
    by (simp add: unique_match_def city_queries region_searcher_def)
  then have r1: "\<not> resolved region_searcher city (Suc 0)"
    by (rule not_resolved_after) simp
  have k: "map_of city (adminkey (Suc 0)) = None" by (simp add: city_def adminkey_def fnum_def)
  from add_hierarchy_levels [of city region_searcher fresh, OF city_coded city_answers]
  obtain atb' where
    e: "add_hierarchy region_searcher city fresh =
          (Inr atb', fresh\<lparr>searched := searched fresh
              @ map (containment_query city) (filter (queried region_searcher city) [0..<4])\<rparr>)"
    and at: "\<forall>n<4. map_of atb' (adminkey n) =
               (if resolved region_searcher city n then summary region_searcher city n
                else map_of city (adminkey n))"
    by blast
  from e city_run have "atb' = city @ [(''admin1'', Dict [(''geonameid'', Str ''3012874''),
                 (''name'', Str ''Ile-de-France'')])]"
    by simp
  with at[rule_format, of "Suc 0"] r1 k
  have "map_of (city @ [(''admin1'', Dict [(''geonameid'', Str ''3012874''),
                 (''name'', Str ''Ile-de-France'')])]) (adminkey (Suc 0)) = None"
    by simp
  with city_coded r0 r1 city_run show ?thesis by simp
qed

section \<open>Bulk indexer\<close>

lemma indexfile_loop_ops:
  "indexfile_loop b ap lines i wr dk = (r, dk') \<Longrightarrow>
     \<exists>new. ops dk' = ops dk @ new \<and> list_all (written_as ap) new"
proof (induction lines arbitrary: i wr dk)
  case Nil
  then show ?case by simp
next
  case (Cons line rest)
  show ?case
  proof (cases "parse_sample b line")
    case (Inl e)
    with Cons.prems show ?thesis by simp
  next
    case (Inr sample)
    let ?wr1 = "if ap then add_document sample wr else update_document sample wr"
    let ?op = "if ap then AddDocument sample else UpdateDocument sample"
    let ?dk1 = "dk\<lparr>ops := ops dk @ [?op]\<rparr>"
    show ?thesis
    proof (cases "i mod 1000000 = 999999")
      case True
      with Cons.prems Inr
      have "indexfile_loop b ap rest (Suc i) (writer (commit (\<not> ap) ?wr1 ?dk1)) (commit (\<not> ap) ?wr1 ?dk1) = (r, dk')"
        by (simp add: Let_def)
      from Cons.IH[OF this] obtain new where
        "ops dk' = ops (commit (\<not> ap) ?wr1 ?dk1) @ new" "list_all (written_as ap) new" by blast
      then show ?thesis
        by (intro exI[of _ "?op # Commit (\<not> ap) # new"]) (simp add: commit_def)
    next
      case False
      with Cons.prems Inr
      have "indexfile_loop b ap rest (Suc i) ?wr1 ?dk1 = (r, dk')"
        by (simp add: Let_def)
      from Cons.IH[OF this] obtain new where
        "ops dk' = ops ?dk1 @ new" "list_all (written_as ap) new" by blast
      then show ?thesis
        by (intro exI[of _ "?op # new"]) simp
    qed
  qed
qed

lemma indexfile_ops:
  "indexfile b filein ow ap dk = (r, dk') \<Longrightarrow>
     \<exists>new. ops dk' = ops dk @ new \<and> list_all (written_as ap) new"
proof (cases "\<not> (ow \<or> store dk = NoDir) \<and> store dk = NoIndex")
  case True
  assume "indexfile b filein ow ap dk = (r, dk')"
  with True show ?thesis by (simp add: indexfile_def)
next
  case False
  assume a: "indexfile b filein ow ap dk = (r, dk')"
  let ?dk1 = "if ow \<or> store dk = NoDir then dk\<lparr>store := Index []\<rparr> else dk"
  have o1: "ops ?dk1 = ops dk" by simp
  show ?thesis
  proof (cases filein)
    case None
    with a False show ?thesis by (auto simp: indexfile_def Let_def)
  next
    case (Some lines)
    obtain r2 dk2 where l: "indexfile_loop b ap lines 0 (writer ?dk1) ?dk1 = (r2, dk2)"
      by (cases "indexfile_loop b ap lines 0 (writer ?dk1) ?dk1") auto
    from indexfile_loop_ops[OF l] o1 obtain new where
      n: "ops dk2 = ops dk @ new" "list_all (written_as ap) new" by auto
    show ?thesis
    proof (cases r2)
      case (Inl e)
      with a False Some l n show ?thesis by (auto simp: indexfile_def Let_def)
    next
      case (Inr wr)
      with a False Some l have "dk' = commit (\<not> ap) wr dk2"
        by (auto simp: indexfile_def Let_def)
      with n show ?thesis
        by (intro exI[of _ "new @ [Commit (\<not> ap)]"]) (simp add: commit_def)
    qed
  qed
qed

lemma download_loop_ops:
  "\<exists>new. ops (download_loop b files ow ap dk) = ops dk @ new \<and> list_all (written_as ap) new"
proof (induction files arbitrary: ow dk)
  case Nil
  show ?case by simp
next
  case (Cons filein rest)
  obtain r dk1 where s: "indexfile b filein ow ap dk = (r, dk1)"
    by (cases "indexfile b filein ow ap dk") auto
  from indexfile_ops[OF s] obtain new1 where
    n1: "ops dk1 = ops dk @ new1" "list_all (written_as ap) new1" by blast
  obtain ow' where d: "download_loop b (filein # rest) ow ap dk = download_loop b rest ow' ap dk1"
    using s by (cases r) auto
  from Cons.IH[of ow' dk1] obtain new2 where
    "ops (download_loop b rest ow' ap dk1) = ops dk1 @ new2" "list_all (written_as ap) new2"
    by blast
  with n1 d show ?case
    by (intro exI[of _ "new1 @ new2"]) simp
qed

lemma download_ops:
  "\<exists>new. ops (download b files ow dk) = ops dk @ new \<and> list_all (written_as ow) new"
  using download_loop_ops[of b files ow ow dk] by (simp add: download_def)


lemma indexfile_loop_adds:
  "list_all (parses b) lines \<Longrightarrow>
     \<exists>wr' dk'. indexfile_loop b True lines i wr dk = (Inr wr', dk') \<and>
       kept wr' @ added wr' = kept wr @ added wr @ map (sample_of b) lines"
proof (induction lines arbitrary: i wr dk)
  case Nil
  show ?case by simp
next
  case (Cons line rest)
  from Cons.prems obtain sample where p: "parse_sample b line = Inr sample"
    by (cases "parse_sample b line") (auto simp: parses_def)
  from Cons.prems have rest: "list_all (parses b) rest" by simp
  let ?wr1 = "add_document sample wr"
  let ?dk1 = "dk\<lparr>ops := ops dk @ [AddDocument sample]\<rparr>"
  have s: "sample_of b line = stored_fields sample" using p by (simp add: sample_of_def)
  show ?case
  proof (cases "i mod 1000000 = 999999")
    case True
    let ?dk2 = "commit False ?wr1 ?dk1"
    from Cons.IH[OF rest, of "Suc i" "writer ?dk2" ?dk2] obtain wr' dk' where
      "indexfile_loop b True rest (Suc i) (writer ?dk2) ?dk2 = (Inr wr', dk')"
      "kept wr' @ added wr' = kept (writer ?dk2) @ added (writer ?dk2) @ map (sample_of b) rest"
      by blast
    with True p s show ?thesis
      by (simp add: Let_def writer_def commit_def committed_def add_document_def)
  next
    case False
    from Cons.IH[OF rest, of "Suc i" ?wr1 ?dk1] obtain wr' dk' where
      "indexfile_loop b True rest (Suc i) ?wr1 ?dk1 = (Inr wr', dk')"
      "kept wr' @ added wr' = kept ?wr1 @ added ?wr1 @ map (sample_of b) rest"
      by blast
    with False p s show ?thesis
      by (simp add: Let_def add_document_def)
  qed
qed

lemma indexfile_adds:
  assumes "readable b filein" and "ow \<or> store dk \<noteq> NoIndex"
  shows "\<exists>dk'. indexfile b filein ow True dk = (Inr (), dk') \<and>
           store dk' = Index ((if ow then [] else committed (store dk))
                                @ map (sample_of b) (lines_of filein))"
proof -
  from assms(1) obtain lines where f: "filein = Some lines" and l: "list_all (parses b) lines"
    by (cases filein) (auto simp: readable_def)
  let ?dk1 = "if ow \<or> store dk = NoDir then dk\<lparr>store := Index []\<rparr> else dk"
  from indexfile_loop_adds[OF l, of 0 "writer ?dk1" ?dk1] obtain wr' dk' where
    r: "indexfile_loop b True lines 0 (writer ?dk1) ?dk1 = (Inr wr', dk')"
       "kept wr' @ added wr' = kept (writer ?dk1) @ added (writer ?dk1) @ map (sample_of b) lines"
    by blast
  have k: "kept (writer ?dk1) @ added (writer ?dk1) = (if ow then [] else committed (store dk))"
    by (simp add: writer_def committed_def)
  have "indexfile b filein ow True dk = (Inr (), commit False wr' dk')"
    using assms(2) f r(1) by (auto simp: indexfile_def Let_def)
  moreover have "store (commit False wr' dk') =
      Index ((if ow then [] else committed (store dk)) @ map (sample_of b) (lines_of filein))"
    using r(2) k f by (simp add: commit_def lines_of_def)
  ultimately show ?thesis by blast
qed

lemma download_loop_adds:
  "list_all (readable b) files \<Longrightarrow> ow \<or> store dk \<noteq> NoIndex \<Longrightarrow>
     store (download_loop b files ow True dk) =
       (if files = [] then store dk
        else Index ((if ow then [] else committed (store dk))
                      @ concat (map (\<lambda>f. map (sample_of b) (lines_of f)) files)))"
proof (induction files arbitrary: ow dk)
  case Nil
  show ?case by simp
next
  case (Cons filein rest)
  from Cons.prems have rf: "readable b filein" and rr: "list_all (readable b) rest" by simp_all
  from indexfile_adds[OF rf Cons.prems(2)] obtain dk1 where
    s: "indexfile b filein ow True dk = (Inr (), dk1)"
       "store dk1 = Index ((if ow then [] else committed (store dk))
                                @ map (sample_of b) (lines_of filein))"
    by blast
  have n: "False \<or> store dk1 \<noteq> NoIndex" using s(2) by simp
  have "store (download_loop b (filein # rest) ow True dk) = store (download_loop b rest False True dk1)"
    using s(1) by simp
  also have "\<dots> = (if rest = [] then store dk1
        else Index (committed (store dk1) @ concat (map (\<lambda>f. map (sample_of b) (lines_of f)) rest)))"
    using Cons.IH[OF rr n] by simp
  finally show ?case using s(2) by (simp add: committed_def)
qed

lemma indexfile_loop_updates:
  "list_all (parses b) lines \<Longrightarrow> i + length lines \<le> 999999 \<Longrightarrow>
     \<exists>wr' dk'. indexfile_loop b False lines i wr dk = (Inr wr', dk') \<and>
       kept wr' = filter (\<lambda>d. map_of d ''geonameid'' \<notin> id_of b ` set lines) (kept wr) \<and>
       added wr' = added wr @ map (sample_of b) lines"
proof (induction lines arbitrary: i wr dk)
  case Nil
  show ?case by simp
next
  case (Cons line rest)
  from Cons.prems obtain sample where p: "parse_sample b line = Inr sample"
    by (cases "parse_sample b line") (auto simp: parses_def)
  from Cons.prems have rest: "list_all (parses b) rest" and le: "Suc i + length rest \<le> 999999"
    by simp_all
  from Cons.prems(2) have nb: "i mod 1000000 \<noteq> 999999" by simp
  let ?wr1 = "update_document sample wr"
  let ?dk1 = "dk\<lparr>ops := ops dk @ [UpdateDocument sample]\<rparr>"
  have s: "sample_of b line = stored_fields sample" "id_of b line = map_of sample ''geonameid''"
    using p by (simp_all add: sample_of_def id_of_def)
  from Cons.IH[OF rest le, of ?wr1 ?dk1] obtain wr' dk' where
    "indexfile_loop b False rest (Suc i) ?wr1 ?dk1 = (Inr wr', dk')"
    "kept wr' = filter (\<lambda>d. map_of d ''geonameid'' \<notin> id_of b ` set rest) (kept ?wr1)"
    "added wr' = added ?wr1 @ map (sample_of b) rest"
    by blast
  with nb p s show ?case
    by (auto simp: Let_def update_document_def add_document_def intro!: filter_cong)
qed

lemma parse_line_a: "parse_sample example_builtins line_a = Inr (sample_named ''Alpha'')"
  by (simp add: parse_sample_def line_a_def tsv_def tab_def atbnames_def bind_def to_float_def
      to_int_def to_date_def example_builtins_def sample_named_def)

lemma parse_line_a2: "parse_sample example_builtins line_a2 = Inr (sample_named ''Alpha two'')"
  by (simp add: parse_sample_def line_a2_def tsv_def tab_def atbnames_def bind_def to_float_def
      to_int_def to_date_def example_builtins_def sample_named_def)

lemma stored_sample_named: "stored_fields (sample_named n) = doc_named n"
  by (simp add: stored_fields_def sample_named_def doc_named_def)

lemma id_sample_named: "map_of (sample_named n) ''geonameid'' = Some (Str ''1'')"
  by (simp add: sample_named_def)

lemma id_doc_named: "map_of (doc_named n) ''geonameid'' = Some (Str ''1'')"
  by (simp add: doc_named_def)

lemma replace_run:
  "download example_builtins [Some [line_a, line_a2]] True no_dir =
     \<lparr>store = Index [doc_named ''Alpha'', doc_named ''Alpha two''],
      ops = [AddDocument (sample_named ''Alpha''), AddDocument (sample_named ''Alpha two''),
             Commit False]\<rparr>"
  by (simp add: download_def indexfile_def no_dir_def parse_line_a parse_line_a2 writer_def
      committed_def add_document_def commit_def stored_sample_named)

lemma append_run:
  "download example_builtins [Some [line_a2]] False one_doc =
     \<lparr>store = Index [doc_named ''Alpha two''],
      ops = [UpdateDocument (sample_named ''Alpha two''), Commit True]\<rparr>"
  by (simp add: download_def indexfile_def one_doc_def parse_line_a2 writer_def
      committed_def add_document_def update_document_def commit_def stored_sample_named
      id_sample_named id_doc_named)

lemma download_loop_no_index:
  "store dk = NoIndex \<Longrightarrow> download_loop b files False ap dk = dk"
  by (induction files) (simp_all add: indexfile_def)

text \<open>
  C2, as stated, fails: a build with overwrite on keeps both of two lines that have the same
  id, and a build with overwrite off replaces the committed document that has the id of the
  new line, so the count is not the sum.
\<close>

theorem replace_adds_append_upserts:
  "store (download example_builtins [Some [line_a, line_a2]] True no_dir) =
     Index [doc_named ''Alpha'', doc_named ''Alpha two''] \<and>
   map_of (doc_named ''Alpha'') ''geonameid'' = map_of (doc_named ''Alpha two'') ''geonameid'' \<and>
   store one_doc = Index [doc_named ''Alpha''] \<and>
   store (download example_builtins [Some [line_a2]] False one_doc) =
     Index [doc_named ''Alpha two'']"
proof -
  have "store one_doc = Index [doc_named ''Alpha'']" by (simp add: one_doc_def)
  then show ?thesis by (simp add: replace_run append_run id_doc_named)
qed

text \<open>
  C2, amended: download with overwrite on writes every record with add_document and with
  overwrite off writes every record with update_document. With overwrite on and every line
  of every file parsing, the index holds, in some order, one document per line, whatever
  the ids. With overwrite off, an existing index and one file under a million lines whose
  lines all parse, the index holds, in some order, the old documents whose id no line has
  and one document per line.
\<close>

theorem download_insert_modes:
  "(\<exists>new. ops (download b files ow dk) = ops dk @ new \<and>
          (\<forall>s. (AddDocument s \<in> set new \<longrightarrow> ow) \<and> (UpdateDocument s \<in> set new \<longrightarrow> \<not> ow))) \<and>
   (list_all (readable b) files \<and> files \<noteq> [] \<longrightarrow>
      (\<exists>ds'. store (download b files True dk) = Index ds' \<and>
             mset ds' = mset (concat (map (\<lambda>f. map (sample_of b) (lines_of f)) files)))) \<and>
   (store dk = Index ds \<and> list_all (parses b) lines \<and> length lines < 1000000 \<longrightarrow>
      (\<exists>ds'. store (download b [Some lines] False dk) = Index ds' \<and>
             mset ds' =
               mset (filter (\<lambda>d. map_of d ''geonameid'' \<notin> id_of b ` set lines) ds)
                 + mset (map (sample_of b) lines)))"
proof (intro conjI impI)
  from download_ops[of b files ow dk] obtain new where
    n: "ops (download b files ow dk) = ops dk @ new" "list_all (written_as ow) new" by blast
  have "\<forall>s. (AddDocument s \<in> set new \<longrightarrow> ow) \<and> (UpdateDocument s \<in> set new \<longrightarrow> \<not> ow)"
    using n(2) by (auto simp: list_all_iff)
  with n(1) show "\<exists>new. ops (download b files ow dk) = ops dk @ new \<and>
          (\<forall>s. (AddDocument s \<in> set new \<longrightarrow> ow) \<and> (UpdateDocument s \<in> set new \<longrightarrow> \<not> ow))"
    by blast
next
  assume a: "list_all (readable b) files \<and> files \<noteq> []"
  then have "store (download b files True dk) =
        Index (concat (map (\<lambda>f. map (sample_of b) (lines_of f)) files))"
    using download_loop_adds[of b files True dk] by (simp add: download_def)
  then show "\<exists>ds'. store (download b files True dk) = Index ds' \<and>
             mset ds' = mset (concat (map (\<lambda>f. map (sample_of b) (lines_of f)) files))"
    by blast
next
  assume a: "store dk = Index ds \<and> list_all (parses b) lines \<and> length lines < 1000000"
  then have le: "0 + length lines \<le> 999999" by simp
  from a have p: "list_all (parses b) lines" by simp
  from indexfile_loop_updates[OF p le, of "writer dk" dk] obtain wr' dk' where
    r: "indexfile_loop b False lines 0 (writer dk) dk = (Inr wr', dk')"
       "kept wr' = filter (\<lambda>d. map_of d ''geonameid'' \<notin> id_of b ` set lines) (kept (writer dk))"
       "added wr' = added (writer dk) @ map (sample_of b) lines"
    by blast
  have "download b [Some lines] False dk = commit True wr' dk'"
    using a r(1) by (simp add: download_def indexfile_def)
  then have "store (download b [Some lines] False dk) =
        Index (map (sample_of b) lines
                 @ filter (\<lambda>d. map_of d ''geonameid'' \<notin> id_of b ` set lines) ds)"
    using a r(2,3) by (simp add: commit_def writer_def committed_def)
  then show "\<exists>ds'. store (download b [Some lines] False dk) = Index ds' \<and>
             mset ds' =
               mset (filter (\<lambda>d. map_of d ''geonameid'' \<notin> id_of b ` set lines) ds)
                 + mset (map (sample_of b) lines)"
    by simp
qed

lemma id_doc_beta: "map_of doc_beta ''geonameid'' = Some (Str ''2'')"
  by (simp add: doc_beta_def)

lemma append_two_run:
  "download example_builtins [Some [line_a2]] False two_docs =
     \<lparr>store = Index [doc_named ''Alpha two'', doc_beta],
      ops = [UpdateDocument (sample_named ''Alpha two''), Commit True]\<rparr>"
  by (simp add: download_def indexfile_def two_docs_def parse_line_a2 writer_def
      committed_def add_document_def update_document_def commit_def stored_sample_named
      id_sample_named id_doc_named id_doc_beta)

theorem download_insert_modes_witness:
  "list_all (readable example_builtins) [Some [line_a, line_a2]] \<and>
   [Some [line_a, line_a2]] \<noteq> [] \<and>
   mset (committed (store (download example_builtins [Some [line_a, line_a2]] True no_dir))) =
     {#doc_named ''Alpha'', doc_named ''Alpha two''#} \<and>
   store two_docs = Index [doc_beta, doc_named ''Alpha''] \<and>
   list_all (parses example_builtins) [line_a2] \<and> length [line_a2] < 1000000 \<and>
   mset (committed (store (download example_builtins [Some [line_a2]] False two_docs))) =
     {#doc_beta, doc_named ''Alpha two''#}"
proof -
  have p: "list_all (parses example_builtins) [line_a, line_a2]"
    by (simp add: parses_def parse_line_a parse_line_a2)
  then have r: "list_all (readable example_builtins) [Some [line_a, line_a2]]"
    by (simp add: readable_def)
  have s: "store two_docs = Index [doc_beta, doc_named ''Alpha'']" by (simp add: two_docs_def)
  from download_insert_modes [of example_builtins "[Some [line_a, line_a2]]" True no_dir] r
  obtain ds1 where
    "store (download example_builtins [Some [line_a, line_a2]] True no_dir) = Index ds1"
    "mset ds1 = mset (concat (map (\<lambda>f. map (sample_of example_builtins) (lines_of f))
                 [Some [line_a, line_a2]]))"
    by blast
  then have one:
    "mset (committed (store (download example_builtins [Some [line_a, line_a2]] True no_dir))) =
       {#doc_named ''Alpha'', doc_named ''Alpha two''#}"
    by (simp add: committed_def lines_of_def sample_of_def parse_line_a parse_line_a2
        stored_sample_named)
  have q: "store two_docs = Index [doc_beta, doc_named ''Alpha''] \<and>
           list_all (parses example_builtins) [line_a2] \<and> length [line_a2] < 1000000"
    using s p by simp
  from download_insert_modes
         [of example_builtins "[]" True two_docs "[doc_beta, doc_named ''Alpha'']" "[line_a2]"] q
  obtain ds2 where
    "store (download example_builtins [Some [line_a2]] False two_docs) = Index ds2"
    "mset ds2 =
       mset (filter (\<lambda>d. map_of d ''geonameid'' \<notin> id_of example_builtins ` set [line_a2])
               [doc_beta, doc_named ''Alpha''])
         + mset (map (sample_of example_builtins) [line_a2])"
    by blast
  then have two:
    "mset (committed (store (download example_builtins [Some [line_a2]] False two_docs))) =
       {#doc_beta, doc_named ''Alpha two''#}"
    by (simp add: committed_def id_of_def sample_of_def parse_line_a2 stored_sample_named
        id_sample_named id_doc_named id_doc_beta)
  from p r s one two show ?thesis by simp
qed

lemma to_float_error: "to_float b k sample = Inl e \<Longrightarrow> e \<noteq> EmptyIndexError"
  by (auto simp: to_float_def split: option.splits val.splits)

lemma to_int_error: "to_int b k sample = Inl e \<Longrightarrow> e \<noteq> EmptyIndexError"
  by (auto simp: to_int_def split: option.splits val.splits if_splits)

lemma to_date_error: "to_date b k sample = Inl e \<Longrightarrow> e \<noteq> EmptyIndexError"
  by (auto simp: to_date_def split: option.splits val.splits if_splits prod.splits)

lemma bind_error: "bind r f = Inl e \<Longrightarrow> r = Inl e \<or> (\<exists>x. r = Inr x \<and> f x = Inl e)"
  by (cases r) (simp_all add: bind_def)

lemma parse_sample_error: "parse_sample b line = Inl e \<Longrightarrow> e \<noteq> EmptyIndexError"
  unfolding parse_sample_def Let_def
  by (auto split: if_splits dest!: bind_error dest: to_float_error to_int_error to_date_error)

lemma indexfile_loop_error:
  "indexfile_loop b ap lines i wr dk = (Inl e, dk') \<Longrightarrow> e \<noteq> EmptyIndexError"
proof (induction lines arbitrary: i wr dk)
  case Nil
  then show ?case by simp
next
  case (Cons line rest)
  show ?case
  proof (cases "parse_sample b line")
    case (Inl e')
    with Cons.prems show ?thesis by (auto dest: parse_sample_error)
  next
    case (Inr sample)
    with Cons.prems obtain i' wr1 dk1 where
      "indexfile_loop b ap rest i' wr1 dk1 = (Inl e, dk')"
      by (auto simp: Let_def split: if_splits)
    then show ?thesis by (rule Cons.IH)
  qed
qed

lemma indexfile_empty_index_error:
  "indexfile b filein ow ap dk = (Inl EmptyIndexError, dk') \<Longrightarrow> \<not> ow \<and> store dk = NoIndex"
  by (auto simp: indexfile_def Let_def split: if_splits option.splits prod.splits sum.splits
      dest: indexfile_loop_error)

text \<open>
  C5, as stated, fails: with overwrite off and no index directory, _indexfile creates an
  index and ingests the file.
\<close>

theorem append_without_directory_creates_index:
  "indexfile example_builtins (Some [line_a]) False False no_dir =
     (Inr (), \<lparr>store = Index [doc_named ''Alpha''],
               ops = [UpdateDocument (sample_named ''Alpha''), Commit True]\<rparr>)"
  by (simp add: indexfile_def no_dir_def parse_line_a writer_def committed_def
      add_document_def update_document_def commit_def stored_sample_named)

text \<open>
  C5, amended: with overwrite off, _indexfile raises EmptyIndexError when the directory is
  there without an index, and only then, and download, which catches it, leaves everything
  as it was; when the directory is missing, _indexfile does what it does with overwrite on,
  which is to start from a new empty index.
\<close>

theorem indexfile_append_missing_index:
  "(store dk = NoIndex \<longrightarrow> indexfile b filein False ap dk = (Inl EmptyIndexError, dk)) \<and>
   (store dk = NoIndex \<longrightarrow> download b files False dk = dk) \<and>
   (store dk = NoDir \<longrightarrow> indexfile b filein False ap dk = indexfile b filein True ap dk) \<and>
   indexfile b filein True ap dk = indexfile b filein True ap (dk\<lparr>store := Index []\<rparr>) \<and>
   (\<forall>dk'. indexfile b filein False ap dk = (Inl EmptyIndexError, dk') \<longrightarrow> store dk = NoIndex)"
proof (intro conjI)
  show "store dk = NoIndex \<longrightarrow> indexfile b filein False ap dk = (Inl EmptyIndexError, dk)"
    by (simp add: indexfile_def)
  show "store dk = NoIndex \<longrightarrow> download b files False dk = dk"
    by (simp add: download_def download_loop_no_index)
  show "store dk = NoDir \<longrightarrow> indexfile b filein False ap dk = indexfile b filein True ap dk"
    by (simp add: indexfile_def)
  show "indexfile b filein True ap dk = indexfile b filein True ap (dk\<lparr>store := Index []\<rparr>)"
    by (simp add: indexfile_def)
  show "\<forall>dk'. indexfile b filein False ap dk = (Inl EmptyIndexError, dk') \<longrightarrow> store dk = NoIndex"
    using indexfile_empty_index_error by blast
qed

theorem indexfile_append_missing_index_witness:
  "store \<lparr>store = NoIndex, ops = []\<rparr> = (NoIndex :: rat store) \<and>
   indexfile example_builtins (Some [line_a]) False False \<lparr>store = NoIndex, ops = []\<rparr> =
     (Inl EmptyIndexError, \<lparr>store = NoIndex, ops = []\<rparr>) \<and>
   download example_builtins [Some [line_a]] False \<lparr>store = NoIndex, ops = []\<rparr> =
     \<lparr>store = NoIndex, ops = []\<rparr> \<and>
   store no_dir = NoDir \<and>
   indexfile example_builtins (Some [line_a]) False False no_dir =
     indexfile example_builtins (Some [line_a]) True False no_dir"
proof -
  note t1 = indexfile_append_missing_index
          [of "\<lparr>store = NoIndex, ops = []\<rparr>" example_builtins "Some [line_a]" False "[Some [line_a]]"]
  note t2 = indexfile_append_missing_index
          [of no_dir example_builtins "Some [line_a]" False "[]"]
  have n: "store \<lparr>store = NoIndex, ops = []\<rparr> = (NoIndex :: rat store)" by simp
  have d: "store no_dir = NoDir" by (simp add: no_dir_def)
  from t1[THEN conjunct1] n
  have a: "indexfile example_builtins (Some [line_a]) False False \<lparr>store = NoIndex, ops = []\<rparr> =
     (Inl EmptyIndexError, \<lparr>store = NoIndex, ops = []\<rparr>)"
    by blast
  from t1[THEN conjunct2, THEN conjunct1] n
  have b: "download example_builtins [Some [line_a]] False \<lparr>store = NoIndex, ops = []\<rparr> =
     \<lparr>store = NoIndex, ops = []\<rparr>"
    by blast
  from t2[THEN conjunct2, THEN conjunct2, THEN conjunct1] d
  have c: "indexfile example_builtins (Some [line_a]) False False no_dir =
     indexfile example_builtins (Some [line_a]) True False no_dir"
    by blast
  from n a b c d show ?thesis by blast
qed

text \<open>
  C8, as stated, fails: a build with overwrite on commits with optimize off, and a build
  with overwrite off commits with optimize on.
\<close>

theorem replace_commits_without_optimize:
  "ops (download example_builtins [Some [line_a, line_a2]] True no_dir) =
     [AddDocument (sample_named ''Alpha''), AddDocument (sample_named ''Alpha two''), Commit False] \<and>
   ops (download example_builtins [Some [line_a2]] False one_doc) =
     [UpdateDocument (sample_named ''Alpha two''), Commit True]"
  by (simp add: replace_run append_run)

text \<open>
  C8, amended: every commit of a build is issued with optimize off when overwrite is on
  and with optimize on when overwrite is off; a file indexed without error ends with such a
  commit.
\<close>

theorem download_commit_optimize:
  "(\<exists>new. ops (download b files ow dk) = ops dk @ new \<and>
          (\<forall>optimize. Commit optimize \<in> set new \<longrightarrow> optimize = (\<not> ow))) \<and>
   (\<forall>dk'. indexfile b filein o' ap dk = (Inr (), dk') \<longrightarrow>
          (\<exists>before. ops dk' = before @ [Commit (\<not> ap)]))"
proof (intro conjI allI impI)
  from download_ops[of b files ow dk] obtain new where
    n: "ops (download b files ow dk) = ops dk @ new" "list_all (written_as ow) new" by blast
  have "\<forall>optimize. Commit optimize \<in> set new \<longrightarrow> optimize = (\<not> ow)"
    using n(2) by (auto simp: list_all_iff)
  with n(1) show "\<exists>new. ops (download b files ow dk) = ops dk @ new \<and>
          (\<forall>optimize. Commit optimize \<in> set new \<longrightarrow> optimize = (\<not> ow))"
    by blast
next
  fix dk'
  assume "indexfile b filein o' ap dk = (Inr (), dk')"
  then show "\<exists>before. ops dk' = before @ [Commit (\<not> ap)]"
    by (auto simp: indexfile_def Let_def commit_def split: if_splits option.splits prod.splits sum.splits)
qed

theorem download_commit_optimize_witness:
  "Commit False \<in> set (ops (download example_builtins [Some [line_a, line_a2]] True no_dir)) \<and>
   Commit True \<notin> set (ops (download example_builtins [Some [line_a, line_a2]] True no_dir)) \<and>
   Commit True \<in> set (ops (download example_builtins [Some [line_a2]] False one_doc)) \<and>
   Commit False \<notin> set (ops (download example_builtins [Some [line_a2]] False one_doc))"
  using download_commit_optimize [of example_builtins "[Some [line_a, line_a2]]" True no_dir]
        download_commit_optimize [of example_builtins "[Some [line_a2]]" False one_doc]
  by (simp add: replace_run append_run)

section \<open>Search by coordinates\<close>

lemma extends_refl: "extends atb atb"
  by (simp add: extends_def)

lemma extends_trans: "extends c b \<Longrightarrow> extends b a \<Longrightarrow> extends c a"
  by (simp add: extends_def)

lemma extends_update: "k \<in> set attached_keys \<Longrightarrow> extends (AList.update k v atb) atb"
  by (auto simp: extends_def update_conv')

lemma describe_extends: "describe tbl atb = Inr atb' \<Longrightarrow> extends atb' atb"
  by (auto simp: describe_def Let_def extends_def update_conv' attached_keys_def
      split: sum.splits)

lemma add_description_extends: "add_description atb w = (Inr atb', w') \<Longrightarrow> extends atb' atb"
  by (auto simp: add_description_def split: prod.splits sum.splits dest: describe_extends)

lemma hierarchy_loop_extends:
  "hierarchy_loop srch ls conds atb w = (Inr atb', w') \<Longrightarrow> set ls \<subseteq> set fnum \<Longrightarrow>
     extends atb' atb"
proof (induction ls arbitrary: conds atb w)
  case Nil
  then show ?case by (simp add: extends_refl)
next
  case (Cons l ls)
  have k: "''admin'' @ l \<in> set attached_keys" using Cons.prems(2) by (simp add: attached_keys_def)
  from Cons.prems(2) have sub: "set ls \<subseteq> set fnum" by simp
  let ?code = "''admin'' @ l @ ''_code''"
  from Cons.prems(1) obtain adminvalue where lf: "lower_field atb ?code = Inr adminvalue"
    by (cases "lower_field atb ?code") (auto simp: Let_def)
  show ?case
  proof (cases "adminvalue = []")
    case True
    with Cons.prems(1) lf show ?thesis by (simp add: Let_def extends_refl)
  next
    case False
    let ?conds = "conds @ [Term ?code adminvalue]"
    let ?q = "And (?conds @ [Term ''feature_code'' (''adm'' @ l)])"
    let ?w = "w\<lparr>searched := searched w @ [?q]\<rparr>"
    from Cons.prems(1) lf False obtain results where sr: "srch ?q 10 = Inr results"
      by (cases "srch ?q 10") (auto simp: Let_def)
    show ?thesis
    proof (cases "total results = 1")
      case neq: False
      with Cons.prems(1) lf False sr show ?thesis by (simp add: Let_def extends_refl)
    next
      case True
      from Cons.prems(1) lf False sr True obtain hit rest where tn: "top_n results = hit # rest"
        by (cases "top_n results") (auto simp: Let_def)
      let ?atb = "AList.update (''admin'' @ l) (Dict (strip (hfields hit))) atb"
      from Cons.prems(1) lf False sr True tn
      have "hierarchy_loop srch ls ?conds ?atb ?w = (Inr atb', w')"
        by (simp add: Let_def)
      from Cons.IH[OF this sub] have "extends atb' ?atb" .
      with extends_update[OF k] show ?thesis by (blast intro: extends_trans)
    qed
  qed
qed

lemma add_hierarchy_extends: "add_hierarchy srch atb w = (Inr atb', w') \<Longrightarrow> extends atb' atb"
  by (auto simp: add_hierarchy_def split: sum.splits dest: hierarchy_loop_extends)

lemma response_loop_extends:
  "response_loop srch h e hits found w = (Inr found', w') \<Longrightarrow>
     \<exists>new. found' = found @ new \<and>
       list_all2 (\<lambda>en hit. score en = hscore hit \<and> extends (place en) (hfields hit)) new hits"
proof (induction hits arbitrary: found w)
  case Nil
  then show ?case by simp
next
  case (Cons res rest)
  obtain r1 w1 where s1:
    "(if e then add_description (hfields res) w else (Inr (hfields res), w)) = (r1, w1)"
    by (cases "if e then add_description (hfields res) w else (Inr (hfields res), w)") auto
  from Cons.prems s1 obtain atb1 where r1: "r1 = Inr atb1" by (cases r1) auto
  have e1: "extends atb1 (hfields res)"
    using s1 r1 by (auto simp: extends_refl split: if_splits dest: add_description_extends)
  obtain r2 w2 where s2:
    "(if h then add_hierarchy srch atb1 w1 else (Inr atb1, w1)) = (r2, w2)"
    by (cases "if h then add_hierarchy srch atb1 w1 else (Inr atb1, w1)") auto
  from Cons.prems s1 r1 s2 obtain atb2 where r2: "r2 = Inr atb2" by (cases r2) auto
  have e2: "extends atb2 atb1"
    using s2 r2 by (auto simp: extends_refl split: if_splits dest: add_hierarchy_extends)
  from Cons.prems s1 r1 s2 r2
  have "response_loop srch h e rest (found @ [\<lparr>score = hscore res, place = atb2\<rparr>]) w2 = (Inr found', w')"
    by simp
  from Cons.IH[OF this] obtain new where
    n: "found' = (found @ [\<lparr>score = hscore res, place = atb2\<rparr>]) @ new"
       "list_all2 (\<lambda>en hit. score en = hscore hit \<and> extends (place en) (hfields hit)) new rest"
    by blast
  show ?case
    using n e1 e2
    by (intro exI[of _ "\<lparr>score = hscore res, place = atb2\<rparr> # new"])
       (auto intro: extends_trans)
qed

lemma response_extends:
  "response res srch h e w = (Inr found, w') \<Longrightarrow>
     list_all2 (\<lambda>en hit. score en = hscore hit \<and> extends (place en) (hfields hit)) found (top_n res)"
  by (auto simp: response_def split: if_splits dest: response_loop_extends)

lemma response_loop_plain:
  "response_loop srch False False hits found w =
     (Inr (found @ map (\<lambda>hit. \<lparr>score = hscore hit, place = hfields hit\<rparr>) hits), w)"
  by (induction hits arbitrary: found) simp_all

lemma response_plain:
  "response res srch False False w =
     (Inr (map (\<lambda>hit. \<lparr>score = hscore hit, place = hfields hit\<rparr>) (top_n res)), w)"
  by (simp add: response_def response_loop_plain)

lemma matches_box:
  "matches tm pm (And [NumericRange ''latitude'' (lat - r) (lat + r),
                       NumericRange ''longitude'' (lon - r) (lon + r)]) d = in_box lat lon r d"
  by (simp add: in_box_def)

text \<open>
  C6: on an index holding the documents \<open>docs\<close>, findpos with a limit of at least 1 and
  both flags off returns, with their scores, the first \<open>limit\<close> documents whose latitude
  lies in [lat - r, lat + r] and whose longitude lies in [lon - r, lon + r], after sending
  that one conjunctive range query; with any flags, a call that returns gives one place for
  each of these documents, equal to it on every key but the attached description and admin
  keys; a call with defaults uses the half-width 1/1000.
\<close>

theorem findpos_bounding_box:
  assumes "1 \<le> limit"
  shows "findpos (index_search tm pm sc docs) lat lon limit r False False w =
           (Inr (map (\<lambda>d. \<lparr>score = sc (And [NumericRange ''latitude'' (lat - r) (lat + r),
                                               NumericRange ''longitude'' (lon - r) (lon + r)]) d,
                             place = d\<rparr>)
                   (take (nat limit) (filter (in_box lat lon r) docs))),
            w\<lparr>searched := searched w @ [And [NumericRange ''latitude'' (lat - r) (lat + r),
                                              NumericRange ''longitude'' (lon - r) (lon + r)]]\<rparr>) \<and>
         (\<forall>found w'. findpos (index_search tm pm sc docs) lat lon limit r h e w = (Inr found, w') \<longrightarrow>
            list_all2 (\<lambda>en d. extends (place en) d) found
              (take (nat limit) (filter (in_box lat lon r) docs))) \<and>
         findpos_default srch' lat' lon' w' = findpos srch' lat' lon' 10 (1 / 1000) True True w'"
proof (intro conjI allI impI)
  let ?q = "And [NumericRange ''latitude'' (lat - r) (lat + r),
                 NumericRange ''longitude'' (lon - r) (lon + r)]"
  have ms: "filter (matches tm pm ?q) docs = filter (in_box lat lon r) docs"
    by (rule filter_cong) (simp_all add: in_box_def)
  show "findpos (index_search tm pm sc docs) lat lon limit r False False w =
           (Inr (map (\<lambda>d. \<lparr>score = sc ?q d, place = d\<rparr>)
                   (take (nat limit) (filter (in_box lat lon r) docs))),
            w\<lparr>searched := searched w @ [?q]\<rparr>)"
    using assms ms by (simp add: findpos_def index_search_def Let_def response_plain comp_def)
  show "findpos_default srch' lat' lon' w' = findpos srch' lat' lon' 10 (1 / 1000) True True w'"
    by (simp add: findpos_default_def)
  fix found w'
  assume a: "findpos (index_search tm pm sc docs) lat lon limit r h e w = (Inr found, w')"
  let ?res = "\<lparr>top_n = map (\<lambda>d. \<lparr>hscore = sc ?q d, hfields = d\<rparr>)
                        (take (nat limit) (filter (in_box lat lon r) docs)),
               total = length (filter (in_box lat lon r) docs)\<rparr>"
  have "response ?res (index_search tm pm sc docs) h e (w\<lparr>searched := searched w @ [?q]\<rparr>)
          = (Inr found, w')"
    using a assms ms by (simp add: findpos_def index_search_def Let_def)
  from response_extends[OF this]
  have "list_all2 (\<lambda>en d. score en = sc ?q d \<and> extends (place en) d) found
              (take (nat limit) (filter (in_box lat lon r) docs))"
    by (simp add: list_all2_map2)
  then show "list_all2 (\<lambda>en d. extends (place en) d) found
              (take (nat limit) (filter (in_box lat lon r) docs))"
    by (rule list_all2_mono) simp
qed


lemma alpha_in_box:
  "in_box (20001 / 2000) (40001 / 2000) (1 / 1000) (doc_named ''Alpha'')"
  by (simp add: in_box_def in_range_def doc_named_def)

lemma alpha_not_in_box:
  "\<not> in_box (1001 / 100) (2001 / 100) (1 / 1000) (doc_named ''Alpha'')"
  by (simp add: in_box_def in_range_def doc_named_def)

theorem findpos_bounding_box_witness:
  "(1::int) \<le> 10 \<and>
   in_box (20001 / 2000) (40001 / 2000) (1 / 1000) (doc_named ''Alpha'') \<and>
   fst (findpos (flat_index [doc_named ''Alpha'']) (20001 / 2000) (40001 / 2000) 10 (1 / 1000)
          False False fresh) =
     Inr [\<lparr>score = 1, place = doc_named ''Alpha''\<rparr>] \<and>
   \<not> in_box (1001 / 100) (2001 / 100) (1 / 1000) (doc_named ''Alpha'') \<and>
   fst (findpos (flat_index [doc_named ''Alpha'']) (1001 / 100) (2001 / 100) 10 (1 / 1000)
          False False fresh) = Inr []"
proof -
  have l: "(1::int) \<le> 10" by simp
  show ?thesis
    using findpos_bounding_box [OF l, of "\<lambda>f t d. False" "\<lambda>fs tc s d. False" "\<lambda>q d. 1"
            "[doc_named ''Alpha'']" "20001 / 2000" "40001 / 2000" "1 / 1000" fresh]
          findpos_bounding_box [OF l, of "\<lambda>f t d. False" "\<lambda>fs tc s d. False" "\<lambda>q d. 1"
            "[doc_named ''Alpha'']" "1001 / 100" "2001 / 100" "1 / 1000" fresh]
          alpha_in_box alpha_not_in_box
    by (simp add: flat_index_def)
qed

end
